theory Spec2Isabelle
  imports Main
begin

section \<open>The plugin server's lifecycle orchestration\<close>

text \<open>
  A shallow embedding of \<^verbatim>\<open>startPluginsServer\<close> and \<^verbatim>\<open>stopPiscina\<close>
  (the orchestration file of the plugin server): the closure variables of
  \<^verbatim>\<open>startPluginsServer\<close> are a record, every call into a collaborator is an
  event of a trace, and an \<^verbatim>\<open>async\<close> function is a function from the state
  to the events it emits, the state it leaves and the way its promise settles.

  The collaborators (Hub, worker pool, consumers, pubsub, Sentry, the logger) are not part
  of the file: what their calls answer is a parameter, and every awaited call may resolve,
  reject or stay pending. A statement runs to its end before the next one starts; the
  interleaving of two listeners at an \<^verbatim>\<open>await\<close> is not modelled. Of the statements
  before the \<^verbatim>\<open>try\<close> block, which log the configuration and register the listeners,
  the listeners are modelled, each as a function of its own.
\<close>

subsection \<open>Promises\<close>

text \<open>
  A promise is described by how and at what time it settles, in milliseconds after the call that
  made it. \<open>Never\<close> is a promise that stays pending for ever.
\<close>

datatype promise = Resolves nat | Rejects nat | Never

text \<open>\<^verbatim>\<open>delay(ms)\<close> of utils: resolves after \<open>ms\<close> milliseconds.\<close>

definition delay :: "nat \<Rightarrow> promise" where
  "delay ms = Resolves ms"

fun settled :: "promise \<Rightarrow> bool" where
  "settled Never = False"
| "settled _ = True"

fun settle_time :: "promise \<Rightarrow> nat" where
  "settle_time (Resolves t) = t"
| "settle_time (Rejects t) = t"
| "settle_time Never = 0"

text \<open>A promise made \<open>t\<close> milliseconds after the start of the enclosing function.\<close>

fun after :: "nat \<Rightarrow> promise \<Rightarrow> promise" where
  "after t (Resolves u) = Resolves (t + u)"
| "after t (Rejects u) = Rejects (t + u)"
| "after t Never = Never"

text \<open>
  \<^verbatim>\<open>Promise.race\<close>: settles as the first of its elements to settle does. Of two
  elements that settle in the same millisecond the one written first in the array wins.
\<close>

fun earlier :: "promise \<Rightarrow> promise \<Rightarrow> promise" where
  "earlier Never q = q"
| "earlier p Never = p"
| "earlier p q = (if settle_time q < settle_time p then q else p)"

fun Promise_race :: "promise list \<Rightarrow> promise" where
  "Promise_race [] = Never"
| "Promise_race (p # ps) = earlier p (Promise_race ps)"

fun list_max :: "nat list \<Rightarrow> nat" where
  "list_max [] = 0"
| "list_max (t # ts) = max t (list_max ts)"

fun rejections :: "promise list \<Rightarrow> nat list" where
  "rejections [] = []"
| "rejections (Rejects t # ps) = t # rejections ps"
| "rejections (_ # ps) = rejections ps"

fun list_min :: "nat \<Rightarrow> nat list \<Rightarrow> nat" where
  "list_min t [] = t"
| "list_min t (u # us) = list_min (min t u) us"

text \<open>
  \<^verbatim>\<open>Promise.all\<close>: rejects as soon as one element rejects; resolves once every
  element has resolved; stays pending otherwise.
\<close>

definition Promise_all :: "promise list \<Rightarrow> promise" where
  "Promise_all ps =
     (case rejections ps of
        t # ts \<Rightarrow> Rejects (list_min t ts)
      | [] \<Rightarrow> if list_all settled ps then Resolves (list_max (map settle_time ps)) else Never)"

text \<open>
  \<^verbatim>\<open>Promise.allSettled\<close>: resolves once every element has settled, whether it
  resolved or rejected; it never rejects.
\<close>

definition Promise_allSettled :: "promise list \<Rightarrow> promise" where
  "Promise_allSettled ps =
     (if list_all settled ps then Resolves (list_max (map settle_time ps)) else Never)"

subsection \<open>Collaborators, events and the closure state\<close>

text \<open>The variables that \<^verbatim>\<open>closeJobs\<close> stops, in the order of its array.\<close>

datatype subsystem =
    PubSub
  | GraphileWorker
  | AnalyticsEventsIngestionConsumer
  | AnalyticsEventsIngestionOverflowConsumer
  | OnEventHandlerConsumer
  | WebhooksHandlerConsumer
  | BufferConsumer
  | JobsConsumer
  | SessionRecordingEventsConsumer
  | SessionRecordingBlobConsumer
  | SchedulerTasksConsumer

text \<open>The calls into collaborators that startup makes.\<close>

datatype call =
    CreateHub
  | NewGraphileWorker
  | ConnectProducer
  | MakePiscina
  | StartGraphileWorker
  | StartScheduledTasksConsumer
  | StartJobsConsumer
  | StartAnalyticsEventsIngestionConsumer
  | StartAnalyticsEventsIngestionOverflowConsumer
  | StartAsyncHandlerConsumer
  | StartAsyncOnEventHandlerConsumer
  | StartAsyncWebhooksHandlerConsumer
  | NewPubSub
  | PubSubStart
  | ScheduleReloadAllActions
  | StartPreflightSchedules
  | CaptureEventLoopMetrics
  | CreatePostgresPool
  | NewTeamManager
  | StartSessionRecordingEventsConsumer
  | SessionRecordingBlobConsumerConfig
  | GetObjectStorage
  | CreateRedisPool
  | NewSessionRecordingBlobIngester
  | IngesterStart
  | CreateHttpServer

datatype event =
    Called call
  | StatusInfo string
  | StatusError string
  | SentryCaptureException
  | SentryFlush
  | KafkaProtocolErrorsInc string int
  | ClearInterval
  | HttpServerClose
  | CancelAllScheduledJobs
  | StopEventLoopMetrics
  | StopRequested subsystem
  | BroadcastTask string
  | CloseHub nat
  | JoinCalled subsystem
  | ProcessExit nat

text \<open>
  The fields of a Hub that the orchestration reads. An object is identified by its
  allocation index \<open>ref\<close>: two calls of \<^verbatim>\<open>createHub\<close> give two Hubs.
\<close>

record hub_obj =
  ref :: nat
  statsd :: bool
  postgres :: bool
  teamManager :: bool
  objectStorage :: bool
  redisPool :: bool

text \<open>
  The \<^verbatim>\<open>let\<close> variables of \<^verbatim>\<open>startPluginsServer\<close>. A variable that holds an
  opaque object or function is a boolean: defined or \<^verbatim>\<open>undefined\<close>. The worker pool
  is its allocation index, \<open>closeHub\<close> the index of the Hub it closes.
\<close>

record state =
  hub :: "hub_obj option"
  pubSub :: bool
  piscina :: "nat option"
  analyticsEventsIngestionConsumer :: bool
  analyticsEventsIngestionOverflowConsumer :: bool
  onEventHandlerConsumer :: bool
  webhooksHandlerConsumer :: bool
  bufferConsumer :: bool
  stopSessionRecordingEventsConsumer :: bool
  stopSessionRecordingBlobConsumer :: bool
  joinSessionRecordingEventsConsumer :: bool
  joinSessionRecordingBlobConsumer :: bool
  jobsConsumer :: bool
  schedulerTasksConsumer :: bool
  httpServer :: bool
  graphileWorker :: bool
  closeHub :: "nat option"
  lastActivityCheck :: bool
  stopEventLoopMetrics :: bool
  shuttingDown :: bool
  serverInstance :: bool
  healthChecks :: "string \<rightharpoonup> subsystem"
  nextRef :: nat

text \<open>
  What the collaborators do, as parameters: how the promise of each call settles, whether
  the call of a stop routine throws before it returns a promise and how the promise it
  returns settles, the Hub that \<^verbatim>\<open>createHub\<close> builds, whether
  \<^verbatim>\<open>getObjectStorage\<close> returns a client, and whether the blob ingester has a batch
  consumer after \<^verbatim>\<open>start()\<close>.
\<close>

record env =
  callResult :: "call \<Rightarrow> promise"
  stopThrows :: "subsystem \<Rightarrow> bool"
  stopResult :: "subsystem \<Rightarrow> promise"
  teardownPlugins :: promise
  flushKafkaMessages :: promise
  closeHubResult :: promise
  newHub :: hub_obj
  getObjectStorageResult :: bool
  batchConsumerSet :: bool

subsection \<open>Sequencing\<close>

text \<open>
  A step is a statement of an \<^verbatim>\<open>async\<close> function: the events it emits, the state
  it leaves, and the promise it is awaited on (\<open>Resolves 0\<close> for a synchronous statement
  that returns, \<open>Rejects\<close> for a throw). \<open>run_steps\<close> is the sequence of statements: it
  goes on after a step that resolves, and ends with the first one that rejects or stays
  pending.
\<close>

type_synonym step = "state \<Rightarrow> event list \<times> state \<times> promise"

definition skip :: step where
  "skip s = ([], s, Resolves 0)"

definition emit :: "event \<Rightarrow> step" where
  "emit e s = ([e], s, Resolves 0)"

definition assign :: "(state \<Rightarrow> state) \<Rightarrow> step" where
  "assign f s = ([], f s, Resolves 0)"

definition throw :: step where
  "throw s = ([], s, Rejects 0)"

definition guarded :: "(state \<Rightarrow> bool) \<Rightarrow> step \<Rightarrow> step" where
  "guarded c f s = (if c s then f s else skip s)"

fun run_steps :: "step list \<Rightarrow> step" where
  "run_steps [] s = ([], s, Resolves 0)"
| "run_steps (f # fs) s =
     (case f s of
        (evs, s', Resolves t) \<Rightarrow>
          (case run_steps fs s' of (evs', s'', r) \<Rightarrow> (evs @ evs', s'', after t r))
      | (evs, s', r) \<Rightarrow> (evs, s', r))"

text \<open>\<^verbatim>\<open>try { body } catch { handler }\<close>.\<close>

definition try_catch :: "step \<Rightarrow> step \<Rightarrow> step" where
  "try_catch body handler s =
     (case body s of
        (evs, s', Rejects t) \<Rightarrow>
          (case handler s' of (evs', s'', r) \<Rightarrow> (evs @ evs', s'', after t r))
      | (evs, s', r) \<Rightarrow> (evs, s', r))"

text \<open>The three components of what a step does in a state.\<close>

definition events_of :: "step \<Rightarrow> state \<Rightarrow> event list" where
  "events_of f s = fst (f s)"

definition state_of :: "step \<Rightarrow> state \<Rightarrow> state" where
  "state_of f s = fst (snd (f s))"

definition promise_of :: "step \<Rightarrow> state \<Rightarrow> promise" where
  "promise_of f s = snd (snd (f s))"

fun resolved :: "promise \<Rightarrow> bool" where
  "resolved (Resolves t) = True"
| "resolved _ = False"

fun rejected :: "promise \<Rightarrow> bool" where
  "rejected (Rejects t) = True"
| "rejected _ = False"

text \<open>\<^verbatim>\<open>process.exit(code)\<close> does not return.\<close>

definition process_exit :: "nat \<Rightarrow> step" where
  "process_exit code s = ([ProcessExit code], s, Never)"

subsection \<open>Shutdown\<close>

text \<open>
  \<^verbatim>\<open>stopPiscina\<close>: the teardown broadcast raced against a delay of 5000 ms, then the
  flush broadcast joined by \<^verbatim>\<open>Promise.all\<close> with a delay of 2000 ms. The flush
  broadcast is issued once the race has resolved; its promise is relative to that moment.
\<close>

definition awaiting :: "event \<Rightarrow> promise \<Rightarrow> step" where
  "awaiting e p s = ([e], s, p)"

definition stopPiscina :: "env \<Rightarrow> step" where
  "stopPiscina env = run_steps
     [awaiting (BroadcastTask ''teardownPlugins'')
        (Promise_race [teardownPlugins env, delay 5000]),
      awaiting (BroadcastTask ''flushKafkaMessages'')
        (Promise_all [flushKafkaMessages env, delay 2000])]"

text \<open>
  The array handed to \<^verbatim>\<open>Promise.allSettled\<close>: each element is \<^verbatim>\<open>x?.stop()\<close>.
  The elements are evaluated in order while the array is built. An undefined variable
  contributes the value \<^verbatim>\<open>undefined\<close>, which counts as settled. The stop routine
  of a defined variable is called, and the call returns a promise or throws. A throw leaves
  \<^verbatim>\<open>closeJobs\<close> at once: the rest of the array is not evaluated,
  \<^verbatim>\<open>Promise.allSettled\<close> is not reached, and the promise of \<^verbatim>\<open>closeJobs\<close>
  rejects.
\<close>

definition stop_targets :: "state \<Rightarrow> (subsystem \<times> bool) list" where
  "stop_targets s =
     [(PubSub, pubSub s),
      (GraphileWorker, graphileWorker s),
      (AnalyticsEventsIngestionConsumer, analyticsEventsIngestionConsumer s),
      (AnalyticsEventsIngestionOverflowConsumer, analyticsEventsIngestionOverflowConsumer s),
      (OnEventHandlerConsumer, onEventHandlerConsumer s),
      (WebhooksHandlerConsumer, webhooksHandlerConsumer s),
      (BufferConsumer, bufferConsumer s),
      (JobsConsumer, jobsConsumer s),
      (SessionRecordingEventsConsumer, stopSessionRecordingEventsConsumer s),
      (SessionRecordingBlobConsumer, stopSessionRecordingBlobConsumer s),
      (SchedulerTasksConsumer, schedulerTasksConsumer s)]"

fun call_stops :: "env \<Rightarrow> (subsystem \<times> bool) list \<Rightarrow> event list \<times> promise list option" where
  "call_stops env [] = ([], Some [])"
| "call_stops env ((x, defined) # rest) =
     (if \<not> defined then
        (case call_stops env rest of (evs, ps) \<Rightarrow> (evs, map_option ((#) (Resolves 0)) ps))
      else if stopThrows env x then ([StopRequested x], None)
      else
        (case call_stops env rest of
           (evs, ps) \<Rightarrow> (StopRequested x # evs, map_option ((#) (stopResult env x)) ps)))"

definition stopAll :: "env \<Rightarrow> step" where
  "stopAll env s =
     (case call_stops env (stop_targets s) of
        (evs, None) \<Rightarrow> (evs, s, Rejects 0)
      | (evs, Some ps) \<Rightarrow> (evs, s, Promise_allSettled ps))"

text \<open>
  The defined handles in the order of the array, the handles whose stop routine is called
  (those up to the first call that throws, that call included), and the array when no call
  throws.
\<close>

definition started :: "state \<Rightarrow> subsystem list" where
  "started s = map fst (filter snd (stop_targets s))"

definition requested :: "env \<Rightarrow> subsystem list \<Rightarrow> subsystem list" where
  "requested env xs =
     takeWhile (\<lambda>x. \<not> stopThrows env x) xs @ take 1 (dropWhile (\<lambda>x. \<not> stopThrows env x) xs)"

definition stop_promises :: "env \<Rightarrow> state \<Rightarrow> promise list" where
  "stop_promises env s =
     map (\<lambda>(x, defined). if defined then stopResult env x else Resolves 0) (stop_targets s)"

definition closeHubStep :: "env \<Rightarrow> step" where
  "closeHubStep env s =
     (case closeHub s of
        None \<Rightarrow> skip s
      | Some r \<Rightarrow> ([CloseHub r], s, closeHubResult env))"

definition closeJobs :: "env \<Rightarrow> step" where
  "closeJobs env = run_steps
     [assign (\<lambda>s. s\<lparr>shuttingDown := True\<rparr>),
      emit (StatusInfo ''Shutting down gracefully...''),
      guarded lastActivityCheck (emit ClearInterval),
      guarded httpServer (emit HttpServerClose),
      emit CancelAllScheduledJobs,
      guarded stopEventLoopMetrics (emit StopEventLoopMetrics),
      stopAll env,
      guarded (\<lambda>s. piscina s \<noteq> None) (stopPiscina env),
      closeHubStep env,
      emit (StatusInfo ''Over and out!'')]"

subsection \<open>Startup\<close>

record capabilities =
  ingestion :: bool
  ingestionOverflow :: bool
  processAsyncHandlers :: bool
  processAsyncOnEventHandlers :: bool
  processAsyncWebhooksHandlers :: bool
  processPluginJobs :: bool
  pluginScheduledTasks :: bool
  sessionRecordingIngestion :: bool
  sessionRecordingBlobIngestion :: bool
  http :: bool

text \<open>
  A call into a collaborator: the call is an event; when its promise resolves the
  assignment of its result is made, otherwise the statement throws or stays pending and
  the variable keeps its value.
\<close>

definition call_step :: "env \<Rightarrow> call \<Rightarrow> (state \<Rightarrow> state) \<Rightarrow> step" where
  "call_step env c upd s =
     (case callResult env c of
        Resolves t \<Rightarrow> ([Called c], upd s, Resolves t)
      | r \<Rightarrow> ([Called c], s, r))"

text \<open>
  \<^verbatim>\<open>[hub, closeHub] = hub ? [hub, closeHub] : await createHub(...)\<close>
\<close>

definition getOrCreateHub :: "env \<Rightarrow> step" where
  "getOrCreateHub env =
     guarded (\<lambda>s. hub s = None)
       (call_step env CreateHub
          (\<lambda>s. s\<lparr>hub := Some ((newHub env)\<lparr>ref := nextRef s\<rparr>),
                 closeHub := Some (nextRef s),
                 nextRef := Suc (nextRef s)\<rparr>))"

text \<open>\<^verbatim>\<open>serverInstance = serverInstance ? serverInstance : { hub }\<close>\<close>

definition setServerInstance :: step where
  "setServerInstance = assign (\<lambda>s. s\<lparr>serverInstance := True\<rparr>)"

text \<open>\<^verbatim>\<open>piscina = piscina ?? (await makePiscina(serverConfig, hub))\<close>\<close>

definition getOrMakePiscina :: "env \<Rightarrow> step" where
  "getOrMakePiscina env =
     guarded (\<lambda>s. piscina s = None)
       (call_step env MakePiscina
          (\<lambda>s. s\<lparr>piscina := Some (nextRef s), nextRef := Suc (nextRef s)\<rparr>))"

definition setHealthCheck :: "string \<Rightarrow> subsystem \<Rightarrow> state \<Rightarrow> state" where
  "setHealthCheck name x s = s\<lparr>healthChecks := (healthChecks s)(name \<mapsto> x)\<rparr>"

definition jobsBlock :: "capabilities \<Rightarrow> env \<Rightarrow> step" where
  "jobsBlock caps env =
     guarded (\<lambda>s. processPluginJobs caps \<or> pluginScheduledTasks caps)
       (run_steps
          [getOrCreateHub env,
           setServerInstance,
           call_step env NewGraphileWorker (\<lambda>s. s\<lparr>graphileWorker := True\<rparr>),
           call_step env ConnectProducer id,
           getOrMakePiscina env,
           emit (StatusInfo ''Starting graphile worker...''),
           call_step env StartGraphileWorker id,
           emit (StatusInfo ''Graphile worker is ready!''),
           guarded (\<lambda>s. pluginScheduledTasks caps)
             (call_step env StartScheduledTasksConsumer
                (\<lambda>s. s\<lparr>schedulerTasksConsumer := True\<rparr>)),
           guarded (\<lambda>s. processPluginJobs caps)
             (call_step env StartJobsConsumer (\<lambda>s. s\<lparr>jobsConsumer := True\<rparr>))])"

definition ingestionBlock :: "capabilities \<Rightarrow> env \<Rightarrow> step" where
  "ingestionBlock caps env =
     guarded (\<lambda>s. ingestion caps)
       (run_steps
          [getOrCreateHub env,
           setServerInstance,
           getOrMakePiscina env,
           call_step env StartAnalyticsEventsIngestionConsumer
             (\<lambda>s. setHealthCheck ''analytics-ingestion'' AnalyticsEventsIngestionConsumer
                    (s\<lparr>analyticsEventsIngestionConsumer := True\<rparr>))])"

definition ingestionOverflowBlock :: "capabilities \<Rightarrow> env \<Rightarrow> step" where
  "ingestionOverflowBlock caps env =
     guarded (\<lambda>s. ingestionOverflow caps)
       (run_steps
          [getOrCreateHub env,
           setServerInstance,
           getOrMakePiscina env,
           call_step env StartAnalyticsEventsIngestionOverflowConsumer
             (\<lambda>s. s\<lparr>analyticsEventsIngestionOverflowConsumer := True\<rparr>)])"

definition asyncHandlersBlock :: "capabilities \<Rightarrow> env \<Rightarrow> step" where
  "asyncHandlersBlock caps env =
     guarded (\<lambda>s. processAsyncHandlers caps)
       (run_steps
          [getOrCreateHub env,
           setServerInstance,
           getOrMakePiscina env,
           call_step env StartAsyncHandlerConsumer
             (\<lambda>s. setHealthCheck ''on-event-ingestion'' OnEventHandlerConsumer
                    (s\<lparr>onEventHandlerConsumer := True\<rparr>))])"

definition asyncOnEventHandlersBlock :: "capabilities \<Rightarrow> env \<Rightarrow> step" where
  "asyncOnEventHandlersBlock caps env =
     guarded (\<lambda>s. processAsyncOnEventHandlers caps)
       (run_steps
          [guarded (\<lambda>s. processAsyncHandlers caps) throw,
           getOrCreateHub env,
           setServerInstance,
           getOrMakePiscina env,
           call_step env StartAsyncOnEventHandlerConsumer
             (\<lambda>s. setHealthCheck ''on-event-ingestion'' OnEventHandlerConsumer
                    (s\<lparr>onEventHandlerConsumer := True\<rparr>))])"

definition asyncWebhooksHandlersBlock :: "capabilities \<Rightarrow> env \<Rightarrow> step" where
  "asyncWebhooksHandlersBlock caps env =
     guarded (\<lambda>s. processAsyncWebhooksHandlers caps)
       (run_steps
          [guarded (\<lambda>s. processAsyncHandlers caps) throw,
           getOrCreateHub env,
           setServerInstance,
           getOrMakePiscina env,
           call_step env StartAsyncWebhooksHandlerConsumer
             (\<lambda>s. setHealthCheck ''webhooks-ingestion'' WebhooksHandlerConsumer
                    (s\<lparr>webhooksHandlerConsumer := True\<rparr>))])"

text \<open>\<^verbatim>\<open>if (hub && serverInstance) { pubSub = new PubSub(...); await pubSub.start(); ... }\<close>\<close>

definition hubHas :: "(hub_obj \<Rightarrow> bool) \<Rightarrow> state \<Rightarrow> bool" where
  "hubHas field s = (case hub s of None \<Rightarrow> False | Some h \<Rightarrow> field h)"

definition pubSubBlock :: "env \<Rightarrow> step" where
  "pubSubBlock env =
     guarded (\<lambda>s. hub s \<noteq> None \<and> serverInstance s)
       (run_steps
          [call_step env NewPubSub (\<lambda>s. s\<lparr>pubSub := True\<rparr>),
           call_step env PubSubStart id,
           call_step env ScheduleReloadAllActions id,
           call_step env StartPreflightSchedules id,
           guarded (hubHas statsd)
             (call_step env CaptureEventLoopMetrics (\<lambda>s. s\<lparr>stopEventLoopMetrics := True\<rparr>)),
           emit (StatusInfo ''All systems go'')])"

text \<open>
  The session recording blocks take each client from the Hub when the Hub has it
  (\<^verbatim>\<open>hub?.postgres ?? createPostgresPool(...)\<close>) and make their own otherwise.
\<close>

definition sessionRecordingBlock :: "capabilities \<Rightarrow> env \<Rightarrow> step" where
  "sessionRecordingBlock caps env =
     guarded (\<lambda>s. sessionRecordingIngestion caps)
       (run_steps
          [guarded (\<lambda>s. \<not> hubHas postgres s) (call_step env CreatePostgresPool id),
           guarded (\<lambda>s. \<not> hubHas teamManager s) (call_step env NewTeamManager id),
           call_step env StartSessionRecordingEventsConsumer
             (\<lambda>s. setHealthCheck ''session-recordings'' SessionRecordingEventsConsumer
                    (s\<lparr>stopSessionRecordingEventsConsumer := True,
                       joinSessionRecordingEventsConsumer := True\<rparr>))])"

text \<open>\<^verbatim>\<open>const s3 = hub?.objectStorage ?? getObjectStorage(blobServerConfig)\<close>\<close>

definition s3 :: "env \<Rightarrow> state \<Rightarrow> bool" where
  "s3 env s = (hubHas objectStorage s \<or> getObjectStorageResult env)"

definition sessionRecordingBlobBlock :: "capabilities \<Rightarrow> env \<Rightarrow> step" where
  "sessionRecordingBlobBlock caps env =
     guarded (\<lambda>s. sessionRecordingBlobIngestion caps)
       (run_steps
          [call_step env SessionRecordingBlobConsumerConfig id,
           guarded (\<lambda>s. \<not> hubHas postgres s) (call_step env CreatePostgresPool id),
           guarded (\<lambda>s. \<not> hubHas teamManager s) (call_step env NewTeamManager id),
           guarded (\<lambda>s. \<not> hubHas objectStorage s) (call_step env GetObjectStorage id),
           guarded (\<lambda>s. \<not> hubHas redisPool s) (call_step env CreateRedisPool id),
           guarded (\<lambda>s. \<not> s3 env s) throw,
           call_step env NewSessionRecordingBlobIngester id,
           call_step env IngesterStart id,
           guarded (\<lambda>s. batchConsumerSet env)
             (assign
                (\<lambda>s. setHealthCheck ''session-recordings-blob'' SessionRecordingBlobConsumer
                       (s\<lparr>stopSessionRecordingBlobConsumer := True,
                          joinSessionRecordingBlobConsumer := True\<rparr>)))])"

definition httpBlock :: "capabilities \<Rightarrow> env \<Rightarrow> step" where
  "httpBlock caps env =
     guarded (\<lambda>s. http caps) (call_step env CreateHttpServer (\<lambda>s. s\<lparr>httpServer := True\<rparr>))"

text \<open>The capability blocks of the \<^verbatim>\<open>try\<close> body, in the order of the source.\<close>

definition blocks :: "capabilities \<Rightarrow> env \<Rightarrow> step list" where
  "blocks caps env =
     [jobsBlock caps env,
      ingestionBlock caps env,
      ingestionOverflowBlock caps env,
      asyncHandlersBlock caps env,
      asyncOnEventHandlersBlock caps env,
      asyncWebhooksHandlersBlock caps env,
      pubSubBlock env,
      sessionRecordingBlock caps env,
      sessionRecordingBlobBlock caps env,
      httpBlock caps env]"

text \<open>
  \<^verbatim>\<open>if (join) { join().catch(closeJobs) }\<close>: the join is called and not awaited; what
  happens when its promise settles is \<open>on_join_settled\<close> below.
\<close>

definition joinSteps :: "step list" where
  "joinSteps =
     [guarded joinSessionRecordingEventsConsumer (emit (JoinCalled SessionRecordingEventsConsumer)),
      guarded joinSessionRecordingBlobConsumer (emit (JoinCalled SessionRecordingBlobConsumer))]"

definition startupFailure :: "env \<Rightarrow> step" where
  "startupFailure env = run_steps
     [emit SentryCaptureException,
      emit (StatusError ''Launchpad failure!''),
      emit SentryFlush,
      emit (StatusError ''Exception while starting server, shutting down!''),
      closeJobs env,
      process_exit 1]"

definition startPluginsServer :: "capabilities \<Rightarrow> env \<Rightarrow> step" where
  "startPluginsServer caps env =
     try_catch (run_steps (blocks caps env @ joinSteps)) (startupFailure env)"

text \<open>The closure state when \<^verbatim>\<open>startPluginsServer\<close> is entered: every variable undefined.\<close>

definition initial :: state where
  "initial =
     \<lparr>hub = None, pubSub = False, piscina = None,
      analyticsEventsIngestionConsumer = False,
      analyticsEventsIngestionOverflowConsumer = False,
      onEventHandlerConsumer = False, webhooksHandlerConsumer = False,
      bufferConsumer = False,
      stopSessionRecordingEventsConsumer = False,
      stopSessionRecordingBlobConsumer = False,
      joinSessionRecordingEventsConsumer = False,
      joinSessionRecordingBlobConsumer = False,
      jobsConsumer = False, schedulerTasksConsumer = False,
      httpServer = False, graphileWorker = False, closeHub = None,
      lastActivityCheck = False, stopEventLoopMetrics = False,
      shuttingDown = False, serverInstance = False,
      healthChecks = Map.empty, nextRef = 0\<rparr>"

subsection \<open>Process event handlers\<close>

text \<open>
  \<^verbatim>\<open>for (const signal of ['SIGINT', 'SIGTERM', 'SIGHUP'])
       process.on(signal, () => process.emit('beforeExit', 0))\<close>
  and the listener of \<^verbatim>\<open>beforeExit\<close> that the emit runs.
\<close>

definition on_beforeExit :: "env \<Rightarrow> step" where
  "on_beforeExit env = run_steps
     [emit (StatusInfo ''process handling beforeExit event. Closing jobs...''),
      closeJobs env,
      process_exit 0]"

definition signal_listener :: "env \<Rightarrow> string \<Rightarrow> step option" where
  "signal_listener env =
     map_of (map (\<lambda>signal. (signal, on_beforeExit env)) [''SIGINT'', ''SIGTERM'', ''SIGHUP''])"

text \<open>
  The JavaScript \<^verbatim>\<open>in\<close> operator asks whether the left operand, converted to a
  property key, names a property of the object or of its prototype chain. The elements of
  a \<^verbatim>\<open>Set\<close> are kept in an internal slot, not as properties: the properties
  reachable from a Set object are those of \<^verbatim>\<open>Set.prototype\<close> and
  \<^verbatim>\<open>Object.prototype\<close>.
\<close>

record js_set =
  set_data :: "int list"
  own_properties :: "string list"

definition new_Set :: "int list \<Rightarrow> js_set" where
  "new_Set xs = \<lparr>set_data = remdups xs, own_properties = []\<rparr>"

definition Set_prototype_properties :: "string list" where
  "Set_prototype_properties =
     [''constructor'', ''has'', ''add'', ''delete'', ''clear'', ''entries'', ''forEach'',
      ''keys'', ''values'', ''size'', ''union'', ''intersection'', ''difference'',
      ''symmetricDifference'', ''isSubsetOf'', ''isSupersetOf'', ''isDisjointFrom'']"

definition Object_prototype_properties :: "string list" where
  "Object_prototype_properties =
     [''constructor'', ''__defineGetter__'', ''__defineSetter__'', ''hasOwnProperty'',
      ''__lookupGetter__'', ''__lookupSetter__'', ''isPrototypeOf'',
      ''propertyIsEnumerable'', ''toString'', ''valueOf'', ''__proto__'',
      ''toLocaleString'']"

text \<open>The decimal digits of a number, as \<^verbatim>\<open>ToString\<close> writes an integer.\<close>

function nat_digits :: "nat \<Rightarrow> string" where
  "nat_digits n =
     (if n < 10 then [''0123456789'' ! n]
      else nat_digits (n div 10) @ [''0123456789'' ! (n mod 10)])"
  by pat_completeness auto
termination
  by (relation "measure id") auto

definition ToString :: "int \<Rightarrow> string" where
  "ToString i = (if i < 0 then CHR ''-'' # nat_digits (nat (- i)) else nat_digits (nat i))"

definition js_in :: "int \<Rightarrow> js_set \<Rightarrow> bool" where
  "js_in key obj =
     (ToString key \<in>
        set (own_properties obj @ Set_prototype_properties @ Object_prototype_properties))"

definition kafkaJSIgnorableCodes :: js_set where
  "kafkaJSIgnorableCodes = new_Set [22, 25, 27]"

text \<open>
  The rejection reason handed to the \<^verbatim>\<open>unhandledRejection\<close> listener: a
  \<^verbatim>\<open>KafkaJSProtocolError\<close> with its \<^verbatim>\<open>type\<close> and \<^verbatim>\<open>code\<close>, or anything else.
\<close>

datatype js_error = KafkaJSProtocolError string int | OtherError

fun on_unhandledRejection :: "js_error \<Rightarrow> step" where
  "on_unhandledRejection (KafkaJSProtocolError ty code) s =
     (if js_in code kafkaJSIgnorableCodes
      then ([StatusError ''Unhandled Promise Rejection'', KafkaProtocolErrorsInc ty code],
            s, Resolves 0)
      else ([StatusError ''Unhandled Promise Rejection'', KafkaProtocolErrorsInc ty code,
             SentryCaptureException], s, Resolves 0))"
| "on_unhandledRejection OtherError s =
     ([StatusError ''Unhandled Promise Rejection'', SentryCaptureException], s, Resolves 0)"

definition on_uncaughtException :: "js_error \<Rightarrow> env \<Rightarrow> step" where
  "on_uncaughtException error env =
     guarded (\<lambda>s. \<not> shuttingDown s)
       (run_steps
          [emit (StatusError ''uncaught_exception''),
           closeJobs env,
           process_exit 1])"

text \<open>
  \<^verbatim>\<open>join().catch(closeJobs)\<close>: \<^verbatim>\<open>catch\<close> registers \<^verbatim>\<open>closeJobs\<close> for the
  rejection of the join promise only.
\<close>

fun on_join_settled :: "promise \<Rightarrow> env \<Rightarrow> step" where
  "on_join_settled (Rejects t) env = closeJobs env"
| "on_join_settled (Resolves t) env = skip"
| "on_join_settled Never env = skip"

subsection \<open>Concrete collaborators and capabilities\<close>

text \<open>Collaborators that answer at once and never fail, and a Hub with every client.\<close>

definition quiet_env :: env where
  "quiet_env =
     \<lparr>callResult = (\<lambda>c. Resolves 0), stopThrows = (\<lambda>x. False),
      stopResult = (\<lambda>x. Resolves 0),
      teardownPlugins = Resolves 0, flushKafkaMessages = Resolves 0,
      closeHubResult = Resolves 0,
      newHub = \<lparr>ref = 0, statsd = True, postgres = True, teamManager = True,
                objectStorage = True, redisPool = True\<rparr>,
      getObjectStorageResult = True, batchConsumerSet = True\<rparr>"

definition no_capabilities :: capabilities where
  "no_capabilities =
     \<lparr>ingestion = False, ingestionOverflow = False, processAsyncHandlers = False,
      processAsyncOnEventHandlers = False, processAsyncWebhooksHandlers = False,
      processPluginJobs = False, pluginScheduledTasks = False,
      sessionRecordingIngestion = False, sessionRecordingBlobIngestion = False,
      http = False\<rparr>"

text \<open>
  A started configuration: the closure state that startup leaves with the capabilities
  \<^verbatim>\<open>ingestion\<close> and \<^verbatim>\<open>http\<close> and quiet collaborators.
\<close>

definition running_state :: state where
  "running_state =
     state_of (startPluginsServer (no_capabilities\<lparr>ingestion := True, http := True\<rparr>) quiet_env)
       initial"


subsection \<open>Properties of steps\<close>

text \<open>A step keeps a property of the closure state.\<close>

definition keeps :: "(state \<Rightarrow> bool) \<Rightarrow> step \<Rightarrow> bool" where
  "keeps P f \<longleftrightarrow> (\<forall>s. P s \<longrightarrow> P (state_of f s))"

text \<open>A step never emits an event of a set.\<close>

definition silent :: "event set \<Rightarrow> step \<Rightarrow> bool" where
  "silent E f \<longleftrightarrow> (\<forall>s. set (events_of f s) \<inter> E = {})"


text \<open>
  A step is frugal with a resource that is built by the call \<open>c\<close> and held in a
  variable (\<open>held\<close> says that the variable is defined): while the resource is held the
  step does not build it and keeps it; the step builds it at most once; and when the step
  has built it and goes on, the resource is held.
\<close>

definition frugal :: "call \<Rightarrow> (state \<Rightarrow> bool) \<Rightarrow> step \<Rightarrow> bool" where
  "frugal c held f \<longleftrightarrow>
     (\<forall>s. (held s \<longrightarrow> Called c \<notin> set (events_of f s) \<and> held (state_of f s))
        \<and> count_list (events_of f s) (Called c) \<le> 1
        \<and> (Called c \<in> set (events_of f s) \<and> resolved (promise_of f s)
             \<longrightarrow> held (state_of f s)))"

text \<open>The blob stream has registered nothing: no stop, no join, no health check.\<close>

definition blob_unregistered :: "state \<Rightarrow> bool" where
  "blob_unregistered s \<longleftrightarrow>
     \<not> stopSessionRecordingBlobConsumer s \<and> \<not> joinSessionRecordingBlobConsumer s
     \<and> healthChecks s ''session-recordings-blob'' = None"

text \<open>The Hub, respectively the worker pool, is held in its variable.\<close>

definition hub_held :: "state \<Rightarrow> bool" where
  "hub_held s \<longleftrightarrow> hub s \<noteq> None"

definition piscina_held :: "state \<Rightarrow> bool" where
  "piscina_held s \<longleftrightarrow> piscina s \<noteq> None"


text \<open>Three capabilities whose blocks each need the Hub and the worker pool.\<close>

definition three_blocks :: capabilities where
  "three_blocks =
     no_capabilities\<lparr>ingestion := True, ingestionOverflow := True, processPluginJobs := True\<rparr>"

text \<open>
  The capability blocks that reach their lines \<^verbatim>\<open>hub ? [hub, closeHub] : await createHub(...)\<close>
  and \<^verbatim>\<open>piscina ?? (await makePiscina(...))\<close>: the enabled ones among the first six, the
  onEvent and webhooks blocks only when \<^verbatim>\<open>processAsyncHandlers\<close> is off (their guard
  throws otherwise). A set of capabilities needs the Hub when one of the six is enabled.
\<close>

definition builders :: "capabilities \<Rightarrow> env \<Rightarrow> step list" where
  "builders caps env =
       (if processPluginJobs caps \<or> pluginScheduledTasks caps then [jobsBlock caps env] else [])
     @ (if ingestion caps then [ingestionBlock caps env] else [])
     @ (if ingestionOverflow caps then [ingestionOverflowBlock caps env] else [])
     @ (if processAsyncHandlers caps then [asyncHandlersBlock caps env] else [])
     @ (if processAsyncOnEventHandlers caps \<and> \<not> processAsyncHandlers caps
        then [asyncOnEventHandlersBlock caps env] else [])
     @ (if processAsyncWebhooksHandlers caps \<and> \<not> processAsyncHandlers caps
        then [asyncWebhooksHandlersBlock caps env] else [])"

definition needs_hub :: "capabilities \<Rightarrow> bool" where
  "needs_hub caps \<longleftrightarrow>
     processPluginJobs caps \<or> pluginScheduledTasks caps \<or> ingestion caps
     \<or> ingestionOverflow caps \<or> processAsyncHandlers caps
     \<or> processAsyncOnEventHandlers caps \<or> processAsyncWebhooksHandlers caps"

definition webhooks_only :: capabilities where
  "webhooks_only = no_capabilities\<lparr>processAsyncWebhooksHandlers := True\<rparr>"

section \<open>Properties\<close>

subsection \<open>Steps and their components\<close>

lemmas step_defs = skip_def emit_def assign_def throw_def guarded_def awaiting_def
  process_exit_def call_step_def try_catch_def

lemmas block_defs = getOrCreateHub_def setServerInstance_def getOrMakePiscina_def setHealthCheck_def
  jobsBlock_def ingestionBlock_def ingestionOverflowBlock_def asyncHandlersBlock_def
  asyncOnEventHandlersBlock_def asyncWebhooksHandlersBlock_def hubHas_def pubSubBlock_def
  sessionRecordingBlock_def s3_def sessionRecordingBlobBlock_def httpBlock_def blocks_def
  joinSteps_def startupFailure_def startPluginsServer_def


lemma after_0 [simp]: "after 0 r = r"
  by (cases r) simp_all

lemma after_after [simp]: "after t (after u r) = after (t + u) r"
  by (cases r) simp_all

lemma resolved_after [simp]: "resolved (after t r) = resolved r"
  by (cases r) simp_all

lemma events_run_Nil [simp]: "events_of (run_steps []) s = []"
  and state_run_Nil [simp]: "state_of (run_steps []) s = s"
  and promise_run_Nil [simp]: "promise_of (run_steps []) s = Resolves 0"
  by (simp_all add: events_of_def state_of_def promise_of_def)

lemma events_run_Cons:
  "events_of (run_steps (f # fs)) s =
     (if resolved (promise_of f s) then events_of f s @ events_of (run_steps fs) (state_of f s)
      else events_of f s)"
  by (cases "f s" rule: prod_cases3; cases "snd (snd (f s))")
     (simp_all add: events_of_def state_of_def promise_of_def split: prod.splits)

lemma state_run_Cons:
  "state_of (run_steps (f # fs)) s =
     (if resolved (promise_of f s) then state_of (run_steps fs) (state_of f s)
      else state_of f s)"
  by (cases "f s" rule: prod_cases3; cases "snd (snd (f s))")
     (simp_all add: events_of_def state_of_def promise_of_def split: prod.splits)

lemma promise_run_Cons:
  "promise_of (run_steps (f # fs)) s =
     (if resolved (promise_of f s)
      then after (settle_time (promise_of f s)) (promise_of (run_steps fs) (state_of f s))
      else promise_of f s)"
  by (cases "f s" rule: prod_cases3; cases "snd (snd (f s))")
     (simp_all add: events_of_def state_of_def promise_of_def split: prod.splits)

lemmas run_Cons = events_run_Cons state_run_Cons promise_run_Cons

lemma proj_emit [simp]:
  "events_of (emit e) s = [e]" "state_of (emit e) s = s" "promise_of (emit e) s = Resolves 0"
  by (simp_all add: events_of_def state_of_def promise_of_def emit_def)

lemma proj_assign [simp]:
  "events_of (assign g) s = []" "state_of (assign g) s = g s" "promise_of (assign g) s = Resolves 0"
  by (simp_all add: events_of_def state_of_def promise_of_def assign_def)

lemma proj_skip [simp]:
  "events_of skip s = []" "state_of skip s = s" "promise_of skip s = Resolves 0"
  by (simp_all add: events_of_def state_of_def promise_of_def skip_def)

lemma proj_throw [simp]:
  "events_of throw s = []" "state_of throw s = s" "promise_of throw s = Rejects 0"
  by (simp_all add: events_of_def state_of_def promise_of_def throw_def)

lemma proj_process_exit [simp]:
  "events_of (process_exit c) s = [ProcessExit c]" "state_of (process_exit c) s = s"
  "promise_of (process_exit c) s = Never"
  by (simp_all add: events_of_def state_of_def promise_of_def process_exit_def)

lemma proj_guarded:
  "events_of (guarded c f) s = (if c s then events_of f s else [])"
  "state_of (guarded c f) s = (if c s then state_of f s else s)"
  "promise_of (guarded c f) s = (if c s then promise_of f s else Resolves 0)"
  by (simp_all add: events_of_def state_of_def promise_of_def guarded_def skip_def)

lemma call_stops_events:
  "fst (call_stops env l) = map StopRequested (requested env (map fst (filter snd l)))"
  by (induction l) (auto simp add: requested_def split: prod.splits)

lemma call_stops_promises:
  "snd (call_stops env l) =
     (if list_ex (stopThrows env) (map fst (filter snd l)) then None
      else Some (map (\<lambda>(x, defined). if defined then stopResult env x else Resolves 0) l))"
  by (induction l) (auto split: prod.splits)

lemma proj_stopAll [simp]:
  "events_of (stopAll env) s = map StopRequested (requested env (started s))"
  "state_of (stopAll env) s = s"
proof -
  obtain evs ps where c: "call_stops env (stop_targets s) = (evs, ps)"
    by fastforce
  with call_stops_events [of env "stop_targets s"]
  have e: "evs = map StopRequested (requested env (started s))"
    by (simp add: started_def)
  from c e show "events_of (stopAll env) s = map StopRequested (requested env (started s))"
    by (cases ps) (simp_all add: events_of_def stopAll_def)
  from c show "state_of (stopAll env) s = s"
    by (cases ps) (simp_all add: state_of_def stopAll_def)
qed

lemma promise_stopAll:
  "promise_of (stopAll env) s =
     (if list_ex (stopThrows env) (started s) then Rejects 0
      else Promise_allSettled (stop_promises env s))"
proof -
  obtain evs ps where c: "call_stops env (stop_targets s) = (evs, ps)"
    by fastforce
  with call_stops_promises [of env "stop_targets s"]
  have "ps = (if list_ex (stopThrows env) (started s) then None
              else Some (stop_promises env s))"
    by (simp add: started_def stop_promises_def)
  with c show ?thesis
    by (simp add: promise_of_def stopAll_def)
qed

lemma proj_closeHubStep [simp]:
  "events_of (closeHubStep env) s = (case closeHub s of None \<Rightarrow> [] | Some r \<Rightarrow> [CloseHub r])"
  "state_of (closeHubStep env) s = s"
  "promise_of (closeHubStep env) s = (case closeHub s of None \<Rightarrow> Resolves 0 | Some r \<Rightarrow> closeHubResult env)"
  by (simp_all add: events_of_def state_of_def promise_of_def closeHubStep_def skip_def split: option.splits)

lemma proj_awaiting [simp]:
  "events_of (awaiting e p) s = [e]" "state_of (awaiting e p) s = s" "promise_of (awaiting e p) s = p"
  by (simp_all add: events_of_def state_of_def promise_of_def awaiting_def)

lemma state_stopPiscina [simp]: "state_of (stopPiscina env) s = s"
  by (simp add: stopPiscina_def run_Cons)

lemma events_stopPiscina:
  "events_of (stopPiscina env) s =
     (if resolved (Promise_race [teardownPlugins env, delay 5000])
      then [BroadcastTask ''teardownPlugins'', BroadcastTask ''flushKafkaMessages'']
      else [BroadcastTask ''teardownPlugins''])"
  by (simp add: stopPiscina_def run_Cons)

lemma promise_stopPiscina:
  "promise_of (stopPiscina env) s =
     (case Promise_race [teardownPlugins env, delay 5000] of
        Resolves t1 \<Rightarrow> after t1 (Promise_all [flushKafkaMessages env, delay 2000])
      | r \<Rightarrow> r)"
  by (cases "Promise_race [teardownPlugins env, delay 5000]";
      cases "Promise_all [flushKafkaMessages env, delay 2000]")
     (simp_all add: stopPiscina_def run_Cons)

lemma stopPiscina_shuttingDown [simp]:
  "promise_of (stopPiscina env) (s\<lparr>shuttingDown := b\<rparr>) = promise_of (stopPiscina env) s"
  "events_of (stopPiscina env) (s\<lparr>shuttingDown := b\<rparr>) = events_of (stopPiscina env) s"
  by (simp_all add: promise_stopPiscina events_stopPiscina)

lemma started_shuttingDown [simp]: "started (s\<lparr>shuttingDown := b\<rparr>) = started s"
  by (simp add: started_def stop_targets_def)

lemma stop_promises_shuttingDown [simp]:
  "stop_promises env (s\<lparr>shuttingDown := b\<rparr>) = stop_promises env s"
  by (simp add: stop_promises_def stop_targets_def)

lemma stopAll_shuttingDown [simp]:
  "promise_of (stopAll env) (s\<lparr>shuttingDown := b\<rparr>) = promise_of (stopAll env) s"
  by (simp add: promise_stopAll)

lemma closeJobs_state [simp]: "state_of (closeJobs env) s = s\<lparr>shuttingDown := True\<rparr>"
  by (simp add: closeJobs_def run_Cons proj_guarded)

lemma closeJobs_events:
  "events_of (closeJobs env) s =
     [StatusInfo ''Shutting down gracefully...'']
     @ (if lastActivityCheck s then [ClearInterval] else [])
     @ (if httpServer s then [HttpServerClose] else [])
     @ [CancelAllScheduledJobs]
     @ (if stopEventLoopMetrics s then [StopEventLoopMetrics] else [])
     @ map StopRequested (requested env (started s))
     @ (if resolved (promise_of (stopAll env) s) then
          (if piscina s \<noteq> None then events_of (stopPiscina env) s else [])
          @ (if piscina s \<noteq> None \<longrightarrow> resolved (promise_of (stopPiscina env) s) then
               (case closeHub s of None \<Rightarrow> [] | Some r \<Rightarrow> [CloseHub r])
               @ (if closeHub s \<noteq> None \<longrightarrow> resolved (closeHubResult env) then [StatusInfo ''Over and out!''] else [])
             else [])
        else [])"
  by (cases "closeHub s") (simp_all add: closeJobs_def run_Cons proj_guarded)

lemma closeJobs_promise:
  "promise_of (closeJobs env) s =
     (case promise_of (stopAll env) s of
        Resolves ta \<Rightarrow>
          (case (if piscina s \<noteq> None then promise_of (stopPiscina env) s else Resolves 0) of
             Resolves tp \<Rightarrow>
               after (ta + tp) (case closeHub s of None \<Rightarrow> Resolves 0 | Some r \<Rightarrow> closeHubResult env)
           | r \<Rightarrow> after ta r)
      | r \<Rightarrow> r)"
  by (cases "promise_of (stopAll env) s"; cases "piscina s";
      cases "promise_of (stopPiscina env) s"; cases "closeHub s"; cases "closeHubResult env")
     (simp_all add: closeJobs_def run_Cons proj_guarded)

lemma settled_stop_promises:
  "list_all settled (stop_promises env s) \<longleftrightarrow> (\<forall>x \<in> set (started s). settled (stopResult env x))"
proof -
  have "list_all settled (map (\<lambda>(x, defined). if defined then g x else Resolves 0) l)
        \<longleftrightarrow> (\<forall>x \<in> set (map fst (filter snd l)). settled (g x))" for g and l :: "(subsystem \<times> bool) list"
    by (induction l) auto
  then show ?thesis by (simp add: stop_promises_def started_def)
qed

lemma running_state_eq:
  "running_state =
     initial\<lparr>hub := Some (newHub quiet_env), closeHub := Some 0, piscina := Some 1,
       nextRef := 2, serverInstance := True, analyticsEventsIngestionConsumer := True,
       healthChecks := [''analytics-ingestion'' \<mapsto> AnalyticsEventsIngestionConsumer],
       pubSub := True, stopEventLoopMetrics := True, httpServer := True\<rparr>"
  by (simp add: running_state_def state_of_def step_defs block_defs no_capabilities_def
        quiet_env_def initial_def)

lemma resolved_allSettled:
  "resolved (Promise_allSettled (stop_promises env s))
     \<longleftrightarrow> (\<forall>x \<in> set (started s). settled (stopResult env x))"
  by (simp add: Promise_allSettled_def settled_stop_promises [symmetric])

lemma resolved_stopAll:
  "resolved (promise_of (stopAll env) s)
     \<longleftrightarrow> (\<forall>x \<in> set (started s). \<not> stopThrows env x \<and> settled (stopResult env x))"
  by (auto simp add: promise_stopAll resolved_allSettled list_ex_iff)

lemma requested_subset: "set (requested env xs) \<subseteq> set xs"
  unfolding requested_def
  using set_takeWhileD [of _ "\<lambda>x. \<not> stopThrows env x" xs]
    set_dropWhileD [of _ "\<lambda>x. \<not> stopThrows env x" xs]
    in_set_takeD [of _ 1 "dropWhile (\<lambda>x. \<not> stopThrows env x) xs"]
  by auto

subsection \<open>Stopping the worker pool\<close>

lemma race_teardown_cases:
  "Promise_race [p, delay 5000] =
     (case p of Resolves t \<Rightarrow> Resolves (min t 5000)
      | Rejects t \<Rightarrow> if t \<le> 5000 then Rejects t else Resolves 5000
      | Never \<Rightarrow> Resolves 5000)"
  by (cases p) (auto simp add: delay_def)

lemma all_flush_cases:
  "Promise_all [p, delay 2000] =
     (case p of Resolves t \<Rightarrow> Resolves (max t 2000) | Rejects t \<Rightarrow> Rejects t | Never \<Rightarrow> Never)"
  by (cases p) (simp_all add: delay_def Promise_all_def)

lemma stopPiscina_promise:
  "promise_of (stopPiscina env) s =
     (case Promise_race [teardownPlugins env, delay 5000] of
        Resolves t1 \<Rightarrow> after t1 (Promise_all [flushKafkaMessages env, delay 2000])
      | r \<Rightarrow> r)"
  by (simp add: stopPiscina_def awaiting_def promise_of_def split: promise.splits)

lemma stopPiscina_promise_cases:
  "promise_of (stopPiscina env) s =
     (case teardownPlugins env of
        Rejects t \<Rightarrow>
          if t \<le> 5000 then Rejects t
          else after 5000 (Promise_all [flushKafkaMessages env, delay 2000])
      | Resolves t \<Rightarrow> after (min t 5000) (Promise_all [flushKafkaMessages env, delay 2000])
      | Never \<Rightarrow> after 5000 (Promise_all [flushKafkaMessages env, delay 2000]))"
  unfolding stopPiscina_promise race_teardown_cases
  by (simp split: promise.splits)

text \<open>
  C8, as stated, fails: the flush broadcast is not bounded by two seconds. With a flush
  broadcast that never answers \<^verbatim>\<open>stopPiscina\<close> stays pending for ever, and with one
  that answers after a minute it takes a minute.
\<close>

theorem stopPiscina_flush_counterexample:
  "promise_of (stopPiscina (quiet_env\<lparr>flushKafkaMessages := Never\<rparr>)) initial = Never
   \<and> promise_of (stopPiscina (quiet_env\<lparr>flushKafkaMessages := Resolves 60000\<rparr>)) initial
       = Resolves 60000"
  by (simp add: stopPiscina_def awaiting_def promise_of_def quiet_env_def delay_def Promise_all_def)

lemma stopPiscina_cases:
  "stopPiscina env s =
     (let flush = (\<lambda>t1. ([BroadcastTask ''teardownPlugins'', BroadcastTask ''flushKafkaMessages''],
                          s,
                          case flushKafkaMessages env of
                            Resolves tf \<Rightarrow> Resolves (t1 + max tf 2000)
                          | Rejects tf \<Rightarrow> Rejects (t1 + tf)
                          | Never \<Rightarrow> Never))
      in case teardownPlugins env of
           Resolves t \<Rightarrow> flush (min t 5000)
         | Rejects t \<Rightarrow>
             if t \<le> 5000 then ([BroadcastTask ''teardownPlugins''], s, Rejects t)
             else flush 5000
         | Never \<Rightarrow> flush 5000)"
  by (cases "teardownPlugins env"; cases "flushKafkaMessages env")
     (auto simp add: stopPiscina_def awaiting_def delay_def Promise_all_def Let_def min_def)

text \<open>
  C8, amended: \<^verbatim>\<open>stopPiscina\<close> first issues the teardown broadcast, raced against a
  delay of 5000 ms: this phase is over within five seconds whatever the broadcast does.
  When the teardown broadcast rejects within the five seconds, \<^verbatim>\<open>stopPiscina\<close>
  rejects at that moment and no flush broadcast is issued. Otherwise the flush broadcast
  is issued next, joined with a delay of 2000 ms by \<^verbatim>\<open>Promise.all\<close>:
  \<^verbatim>\<open>stopPiscina\<close> resolves once the flush broadcast has resolved and two seconds
  have passed, and rejects when the flush broadcast rejects. The two seconds are a minimum
  wait, not a timeout: a flush broadcast that never answers keeps \<^verbatim>\<open>stopPiscina\<close>
  pending, and one that answers keeps it for at most five seconds more than the longer of
  the flush and two seconds.
\<close>

theorem stopPiscina_timing:
  "stopPiscina env s =
     (let flush = (\<lambda>t1. ([BroadcastTask ''teardownPlugins'', BroadcastTask ''flushKafkaMessages''],
                          s,
                          case flushKafkaMessages env of
                            Resolves tf \<Rightarrow> Resolves (t1 + max tf 2000)
                          | Rejects tf \<Rightarrow> Rejects (t1 + tf)
                          | Never \<Rightarrow> Never))
      in case teardownPlugins env of
           Resolves t \<Rightarrow> flush (min t 5000)
         | Rejects t \<Rightarrow>
             if t \<le> 5000 then ([BroadcastTask ''teardownPlugins''], s, Rejects t)
             else flush 5000
         | Never \<Rightarrow> flush 5000)
   \<and> (\<forall>t. promise_of (stopPiscina env) s = Resolves t \<longrightarrow>
         (\<exists>tf. flushKafkaMessages env = Resolves tf \<and> tf \<le> t \<and> 2000 \<le> t
               \<and> t \<le> 5000 + max tf 2000))
   \<and> (flushKafkaMessages env = Never \<and> (\<forall>t \<le> 5000. teardownPlugins env \<noteq> Rejects t)
        \<longrightarrow> promise_of (stopPiscina env) s = Never)
   \<and> (\<forall>tf. flushKafkaMessages env = Resolves tf \<longrightarrow>
         settled (promise_of (stopPiscina env) s)
         \<and> settle_time (promise_of (stopPiscina env) s) \<le> 5000 + max tf 2000)"
proof (intro conjI allI impI)
  show "stopPiscina env s =
     (let flush = (\<lambda>t1. ([BroadcastTask ''teardownPlugins'', BroadcastTask ''flushKafkaMessages''],
                          s,
                          case flushKafkaMessages env of
                            Resolves tf \<Rightarrow> Resolves (t1 + max tf 2000)
                          | Rejects tf \<Rightarrow> Rejects (t1 + tf)
                          | Never \<Rightarrow> Never))
      in case teardownPlugins env of
           Resolves t \<Rightarrow> flush (min t 5000)
         | Rejects t \<Rightarrow>
             if t \<le> 5000 then ([BroadcastTask ''teardownPlugins''], s, Rejects t)
             else flush 5000
         | Never \<Rightarrow> flush 5000)"
    by (rule stopPiscina_cases)
next
  fix t assume "promise_of (stopPiscina env) s = Resolves t"
  then show "\<exists>tf. flushKafkaMessages env = Resolves tf \<and> tf \<le> t \<and> 2000 \<le> t
               \<and> t \<le> 5000 + max tf 2000"
    unfolding stopPiscina_promise_cases all_flush_cases
    by (cases "teardownPlugins env"; cases "flushKafkaMessages env")
       (auto split: if_splits)
next
  assume "flushKafkaMessages env = Never \<and> (\<forall>t \<le> 5000. teardownPlugins env \<noteq> Rejects t)"
  then show "promise_of (stopPiscina env) s = Never"
    unfolding stopPiscina_promise_cases all_flush_cases
    by (cases "teardownPlugins env") (auto split: if_splits)
next
  fix tf assume f: "flushKafkaMessages env = Resolves tf"
  then show "settled (promise_of (stopPiscina env) s)"
    unfolding stopPiscina_promise_cases all_flush_cases
    by (cases "teardownPlugins env") (auto split: if_splits)
  from f show "settle_time (promise_of (stopPiscina env) s) \<le> 5000 + max tf 2000"
    unfolding stopPiscina_promise_cases all_flush_cases
    by (cases "teardownPlugins env") (auto split: if_splits)
qed

theorem stopPiscina_timing_witness:
  "stopPiscina (quiet_env\<lparr>teardownPlugins := Rejects 100\<rparr>) initial
     = ([BroadcastTask ''teardownPlugins''], initial, Rejects 100)
   \<and> stopPiscina (quiet_env\<lparr>teardownPlugins := Never, flushKafkaMessages := Resolves 300\<rparr>)
       initial
     = ([BroadcastTask ''teardownPlugins'', BroadcastTask ''flushKafkaMessages''], initial,
        Resolves 7000)
   \<and> (\<exists>tf. flushKafkaMessages
             (quiet_env\<lparr>teardownPlugins := Never, flushKafkaMessages := Resolves 300\<rparr>)
           = Resolves tf
         \<and> tf \<le> 7000 \<and> (2000::nat) \<le> 7000 \<and> (7000::nat) \<le> 5000 + max tf 2000)
   \<and> promise_of (stopPiscina (quiet_env\<lparr>flushKafkaMessages := Never\<rparr>)) initial = Never"
proof -
  let ?d = "quiet_env\<lparr>teardownPlugins := Rejects 100\<rparr>"
  let ?e = "quiet_env\<lparr>teardownPlugins := Never, flushKafkaMessages := Resolves 300\<rparr>"
  let ?f = "quiet_env\<lparr>flushKafkaMessages := Never\<rparr>"
  have d: "stopPiscina ?d initial = ([BroadcastTask ''teardownPlugins''], initial, Rejects 100)"
    using stopPiscina_timing [of ?d initial] by (simp add: quiet_env_def)
  have e: "stopPiscina ?e initial
     = ([BroadcastTask ''teardownPlugins'', BroadcastTask ''flushKafkaMessages''], initial,
        Resolves 7000)"
    using stopPiscina_timing [of ?e initial] by (simp add: quiet_env_def)
  then have r: "promise_of (stopPiscina ?e) initial = Resolves 7000"
    by (simp add: promise_of_def)
  have h: "flushKafkaMessages ?f = Never \<and> (\<forall>t \<le> 5000. teardownPlugins ?f \<noteq> Rejects t)"
    by (simp add: quiet_env_def)
  from stopPiscina_timing [of ?e initial] d e r h stopPiscina_timing [of ?f initial]
  show ?thesis by blast
qed

subsection \<open>The shutdown sequence\<close>

lemma filter_defined:
  "map fst (filter snd ((x, c) # l)) = (if c then [x] else []) @ map fst (filter snd l)"
  by simp

lemma started_handles:
  "started s =
       (if pubSub s then [PubSub] else [])
     @ (if graphileWorker s then [GraphileWorker] else [])
     @ (if analyticsEventsIngestionConsumer s then [AnalyticsEventsIngestionConsumer] else [])
     @ (if analyticsEventsIngestionOverflowConsumer s
        then [AnalyticsEventsIngestionOverflowConsumer] else [])
     @ (if onEventHandlerConsumer s then [OnEventHandlerConsumer] else [])
     @ (if webhooksHandlerConsumer s then [WebhooksHandlerConsumer] else [])
     @ (if bufferConsumer s then [BufferConsumer] else [])
     @ (if jobsConsumer s then [JobsConsumer] else [])
     @ (if stopSessionRecordingEventsConsumer s then [SessionRecordingEventsConsumer] else [])
     @ (if stopSessionRecordingBlobConsumer s then [SessionRecordingBlobConsumer] else [])
     @ (if schedulerTasksConsumer s then [SchedulerTasksConsumer] else [])"
  unfolding started_def stop_targets_def filter_defined by simp

lemma resolved_iff: "resolved p \<longleftrightarrow> (\<exists>t. p = Resolves t)"
  by (cases p) simp_all

lemma settled_iff: "settled p \<longleftrightarrow> p \<noteq> Never"
  by (cases p) simp_all

lemma stops_over_iff:
  "resolved (promise_of (stopAll env) s)
     \<longleftrightarrow> list_all (\<lambda>x. \<not> stopThrows env x \<and> stopResult env x \<noteq> Never) (started s)"
  by (simp add: resolved_stopAll settled_iff list_all_iff)

lemma stopPiscina_events_cases:
  "events_of (stopPiscina env) s =
     BroadcastTask ''teardownPlugins''
     # (if (case teardownPlugins env of Rejects t \<Rightarrow> t \<le> 5000 | _ \<Rightarrow> False) then []
        else [BroadcastTask ''flushKafkaMessages''])"
  unfolding events_of_def stopPiscina_cases
  by (cases "teardownPlugins env") (simp_all add: Let_def)

lemma stopPiscina_resolved_iff:
  "resolved (promise_of (stopPiscina env) s)
     \<longleftrightarrow> \<not> (case teardownPlugins env of Rejects t \<Rightarrow> t \<le> 5000 | _ \<Rightarrow> False)
         \<and> (\<exists>t. flushKafkaMessages env = Resolves t)"
  unfolding promise_of_def stopPiscina_cases
  by (cases "teardownPlugins env"; cases "flushKafkaMessages env") (simp_all add: Let_def)

lemma closeJobs_resolved_iff:
  "resolved (promise_of (closeJobs env) s)
     \<longleftrightarrow> resolved (promise_of (stopAll env) s)
         \<and> (piscina s = None \<or> resolved (promise_of (stopPiscina env) s))
         \<and> (closeHub s = None \<or> resolved (closeHubResult env))"
  by (cases "promise_of (stopAll env) s"; cases "piscina s";
      cases "promise_of (stopPiscina env) s"; cases "closeHub s"; cases "closeHubResult env")
     (simp_all add: closeJobs_promise)

lemma closeJobs_cases:
  "(let handles =
            (if pubSub s then [PubSub] else [])
          @ (if graphileWorker s then [GraphileWorker] else [])
          @ (if analyticsEventsIngestionConsumer s then [AnalyticsEventsIngestionConsumer] else [])
          @ (if analyticsEventsIngestionOverflowConsumer s
             then [AnalyticsEventsIngestionOverflowConsumer] else [])
          @ (if onEventHandlerConsumer s then [OnEventHandlerConsumer] else [])
          @ (if webhooksHandlerConsumer s then [WebhooksHandlerConsumer] else [])
          @ (if bufferConsumer s then [BufferConsumer] else [])
          @ (if jobsConsumer s then [JobsConsumer] else [])
          @ (if stopSessionRecordingEventsConsumer s then [SessionRecordingEventsConsumer] else [])
          @ (if stopSessionRecordingBlobConsumer s then [SessionRecordingBlobConsumer] else [])
          @ (if schedulerTasksConsumer s then [SchedulerTasksConsumer] else []);
        called = takeWhile (\<lambda>x. \<not> stopThrows env x) handles
                 @ take 1 (dropWhile (\<lambda>x. \<not> stopThrows env x) handles);
        stops_over = list_all (\<lambda>x. \<not> stopThrows env x \<and> stopResult env x \<noteq> Never) handles;
        teardown_fails = (case teardownPlugins env of Rejects t \<Rightarrow> t \<le> 5000 | _ \<Rightarrow> False);
        pool_stopped = (piscina s = None
                        \<or> \<not> teardown_fails \<and> (\<exists>t. flushKafkaMessages env = Resolves t));
        hub_closed = (closeHub s = None \<or> (\<exists>t. closeHubResult env = Resolves t))
    in events_of (closeJobs env) s =
         [StatusInfo ''Shutting down gracefully...'']
         @ (if lastActivityCheck s then [ClearInterval] else [])
         @ (if httpServer s then [HttpServerClose] else [])
         @ [CancelAllScheduledJobs]
         @ (if stopEventLoopMetrics s then [StopEventLoopMetrics] else [])
         @ map StopRequested called
         @ (if stops_over then
              (if piscina s = None then []
               else BroadcastTask ''teardownPlugins''
                    # (if teardown_fails then [] else [BroadcastTask ''flushKafkaMessages'']))
              @ (if pool_stopped then
                   (case closeHub s of None \<Rightarrow> [] | Some r \<Rightarrow> [CloseHub r])
                   @ (if hub_closed then [StatusInfo ''Over and out!''] else [])
                 else [])
            else [])
       \<and> (resolved (promise_of (closeJobs env) s) \<longleftrightarrow> stops_over \<and> pool_stopped \<and> hub_closed)
       \<and> state_of (closeJobs env) s = s\<lparr>shuttingDown := True\<rparr>)"
proof -
  have e: "events_of (closeJobs env) s =
         [StatusInfo ''Shutting down gracefully...'']
         @ (if lastActivityCheck s then [ClearInterval] else [])
         @ (if httpServer s then [HttpServerClose] else [])
         @ [CancelAllScheduledJobs]
         @ (if stopEventLoopMetrics s then [StopEventLoopMetrics] else [])
         @ map StopRequested (requested env (started s))
         @ (if resolved (promise_of (stopAll env) s) then
              (if piscina s = None then [] else events_of (stopPiscina env) s)
              @ (if piscina s = None \<or> resolved (promise_of (stopPiscina env) s) then
                   (case closeHub s of None \<Rightarrow> [] | Some r \<Rightarrow> [CloseHub r])
                   @ (if closeHub s = None \<or> resolved (closeHubResult env)
                      then [StatusInfo ''Over and out!''] else [])
                 else [])
            else [])"
    by (cases "piscina s"; cases "closeHub s") (simp_all add: closeJobs_events)
  show ?thesis
    unfolding Let_def
    unfolding e closeJobs_resolved_iff closeJobs_state
    unfolding stops_over_iff stopPiscina_events_cases stopPiscina_resolved_iff requested_def
    unfolding resolved_iff
    unfolding started_handles
    by (intro conjI refl)
qed

lemma running_state_fields:
  "pubSub running_state" "\<not> graphileWorker running_state"
  "analyticsEventsIngestionConsumer running_state"
  "\<not> analyticsEventsIngestionOverflowConsumer running_state"
  "\<not> onEventHandlerConsumer running_state" "\<not> webhooksHandlerConsumer running_state"
  "\<not> bufferConsumer running_state" "\<not> jobsConsumer running_state"
  "\<not> stopSessionRecordingEventsConsumer running_state"
  "\<not> stopSessionRecordingBlobConsumer running_state"
  "\<not> schedulerTasksConsumer running_state"
  "piscina running_state = Some 1" "closeHub running_state = Some 0"
  "httpServer running_state" "\<not> lastActivityCheck running_state"
  "stopEventLoopMetrics running_state"
  by (simp_all add: running_state_eq initial_def)





lemma exit_not_in_closeJobs: "ProcessExit c \<notin> set (events_of (closeJobs env) s)"
  by (auto simp add: closeJobs_events events_stopPiscina split: option.splits)

lemma on_beforeExit_events:
  "events_of (on_beforeExit env) s =
     StatusInfo ''process handling beforeExit event. Closing jobs...''
     # events_of (closeJobs env) s
     @ (if resolved (promise_of (closeJobs env) s) then [ProcessExit 0] else [])"
  by (simp add: on_beforeExit_def run_Cons)


lemma closeJobs_quiet_running:
  "events_of (closeJobs quiet_env) running_state =
     [StatusInfo ''Shutting down gracefully...'', HttpServerClose, CancelAllScheduledJobs,
      StopEventLoopMetrics, StopRequested PubSub,
      StopRequested AnalyticsEventsIngestionConsumer,
      BroadcastTask ''teardownPlugins'', BroadcastTask ''flushKafkaMessages'', CloseHub 0,
      StatusInfo ''Over and out!'']"
  "resolved (promise_of (closeJobs quiet_env) running_state)"
  using closeJobs_cases [of running_state quiet_env]
  by (simp_all add: Let_def running_state_fields quiet_env_def)

subsection \<open>Termination signals\<close>

text \<open>
  C9: the listeners of SIGINT, SIGTERM and SIGHUP are one and the same: each emits
  \<^verbatim>\<open>beforeExit\<close>, whose listener runs \<^verbatim>\<open>closeJobs\<close> and, when
  \<^verbatim>\<open>closeJobs\<close> has run to completion, exits with code 0 as its last action. While
  \<^verbatim>\<open>closeJobs\<close> has not completed there is no exit.
\<close>

theorem signals_shutdown_then_exit_0:
  "(signal \<in> set [''SIGINT'', ''SIGTERM'', ''SIGHUP'']
      \<longrightarrow> signal_listener env signal = Some (on_beforeExit env))
   \<and> (resolved (promise_of (closeJobs env) s)
      \<longrightarrow> events_of (on_beforeExit env) s =
            StatusInfo ''process handling beforeExit event. Closing jobs...''
            # events_of (closeJobs env) s @ [ProcessExit 0])
   \<and> (\<not> resolved (promise_of (closeJobs env) s)
      \<longrightarrow> events_of (on_beforeExit env) s =
            StatusInfo ''process handling beforeExit event. Closing jobs...''
            # events_of (closeJobs env) s)"
  by (auto simp add: on_beforeExit_events signal_listener_def)

theorem signals_shutdown_then_exit_0_witness:
  "signal_listener quiet_env ''SIGTERM'' = Some (on_beforeExit quiet_env)
   \<and> signal_listener quiet_env ''SIGINT'' = Some (on_beforeExit quiet_env)
   \<and> signal_listener quiet_env ''SIGHUP'' = Some (on_beforeExit quiet_env)
   \<and> events_of (on_beforeExit quiet_env) running_state =
       [StatusInfo ''process handling beforeExit event. Closing jobs...'',
        StatusInfo ''Shutting down gracefully...'', HttpServerClose, CancelAllScheduledJobs,
        StopEventLoopMetrics, StopRequested PubSub,
        StopRequested AnalyticsEventsIngestionConsumer,
        BroadcastTask ''teardownPlugins'', BroadcastTask ''flushKafkaMessages'', CloseHub 0,
        StatusInfo ''Over and out!'', ProcessExit 0]"
proof -
  have r: "resolved (promise_of (closeJobs quiet_env) running_state)"
    by (simp add: closeJobs_quiet_running)
  have m: "''SIGTERM'' \<in> set [''SIGINT'', ''SIGTERM'', ''SIGHUP'']"
    "''SIGINT'' \<in> set [''SIGINT'', ''SIGTERM'', ''SIGHUP'']"
    "''SIGHUP'' \<in> set [''SIGINT'', ''SIGTERM'', ''SIGHUP'']"
    by simp_all
  from signals_shutdown_then_exit_0 [of "''SIGTERM''" quiet_env running_state]
       signals_shutdown_then_exit_0 [of "''SIGINT''" quiet_env running_state]
       signals_shutdown_then_exit_0 [of "''SIGHUP''" quiet_env running_state] r m
  show ?thesis by (simp add: closeJobs_quiet_running)
qed

subsection \<open>Invoking the shutdown twice\<close>

text \<open>
  C2, as stated, fails: \<^verbatim>\<open>closeJobs\<close> sets the flag \<^verbatim>\<open>shuttingDown\<close> and never
  reads it. Invoked twice in the started configuration it closes the Hub twice, asks the
  ingestion consumer to stop twice and broadcasts the teardown twice.
\<close>

theorem closeJobs_twice_counterexample:
  "count_list (events_of (run_steps [closeJobs quiet_env, closeJobs quiet_env]) running_state)
     (CloseHub 0) = 2
   \<and> count_list (events_of (run_steps [closeJobs quiet_env, closeJobs quiet_env]) running_state)
     (StopRequested AnalyticsEventsIngestionConsumer) = 2
   \<and> count_list (events_of (run_steps [closeJobs quiet_env, closeJobs quiet_env]) running_state)
     (BroadcastTask ''teardownPlugins'') = 2"
proof -
  have "events_of (closeJobs quiet_env) (running_state\<lparr>shuttingDown := True\<rparr>)
          = events_of (closeJobs quiet_env) running_state"
    by (simp add: closeJobs_events)
  then show ?thesis
    by (simp add: run_Cons closeJobs_quiet_running)
qed

text \<open>
  C2, amended: \<^verbatim>\<open>closeJobs\<close> sets the flag \<^verbatim>\<open>shuttingDown\<close>, and the flag is
  read by the listener of \<^verbatim>\<open>uncaughtException\<close> only: once \<^verbatim>\<open>closeJobs\<close> has
  been invoked, an uncaught exception does nothing, so that no close routine runs again on
  that path. \<^verbatim>\<open>closeJobs\<close> itself is not guarded: invoked again, it runs the same
  sequence as if it had not been invoked before.
\<close>

theorem shuttingDown_latch:
  "shuttingDown (state_of (closeJobs env) s)
   \<and> on_uncaughtException error env' (state_of (closeJobs env) s)
       = ([], state_of (closeJobs env) s, Resolves 0)
   \<and> events_of (closeJobs env') (state_of (closeJobs env) s) = events_of (closeJobs env') s"
  by (simp add: on_uncaughtException_def guarded_def skip_def closeJobs_events)

subsection \<open>Unhandled rejections and uncaught exceptions\<close>




subsection \<open>The join of a session recording consumer\<close>

text \<open>
  C5 does not hold of the code: \<^verbatim>\<open>join().catch(closeJobs)\<close> reacts to the rejection
  of the join promise only. When the promise resolves nothing is run: no shutdown and no
  exit. (When it rejects, \<^verbatim>\<open>closeJobs\<close> runs, and this path calls no
  \<^verbatim>\<open>process.exit\<close> either.)
\<close>

theorem join_resolved_no_shutdown:
  "on_join_settled (Resolves t) env s = ([], s, Resolves 0)
   \<and> set (events_of (on_join_settled (Rejects t) env) s) \<inter> range ProcessExit = {}"
  using exit_not_in_closeJobs [of _ env s] by (auto simp add: skip_def)

subsection \<open>The ignorable broker protocol codes\<close>

lemma digit_nth: "k < 10 \<Longrightarrow> ''0123456789'' ! k \<in> set ''0123456789''"
  by (rule nth_mem) simp

lemma nat_digits_chars: "set (nat_digits n) \<subseteq> set ''0123456789''"
proof (induction n rule: nat_digits.induct)
  case (1 n)
  show ?case
  proof (cases "n < 10")
    case True
    then show ?thesis using digit_nth [of n] by (subst nat_digits.simps) simp
  next
    case False
    have "n mod 10 < 10" by simp
    with False 1 digit_nth [of "n mod 10"] show ?thesis
      by (subst nat_digits.simps) simp
  qed
qed

lemma nat_digits_nonempty: "nat_digits n \<noteq> []"
  by (subst nat_digits.simps) simp

lemma ToString_hd: "hd (ToString i) \<in> set ''-0123456789''"
proof (cases "i < 0")
  case True
  then show ?thesis by (simp add: ToString_def)
next
  case False
  have "hd (nat_digits (nat i)) \<in> set (nat_digits (nat i))"
    using nat_digits_nonempty by (rule hd_in_set)
  with nat_digits_chars [of "nat i"] have "hd (nat_digits (nat i)) \<in> set ''0123456789''"
    by blast
  with False show ?thesis by (simp add: ToString_def)
qed

lemma property_names_not_numeric:
  "list_all (\<lambda>p. hd p \<notin> set ''-0123456789'')
     (Set_prototype_properties @ Object_prototype_properties)"
  by (simp add: Set_prototype_properties_def Object_prototype_properties_def)

lemma js_in_Set_never: "\<not> js_in code (new_Set xs)"
proof
  assume "js_in code (new_Set xs)"
  then have "ToString code \<in> set (Set_prototype_properties @ Object_prototype_properties)"
    by (simp add: js_in_def new_Set_def)
  with property_names_not_numeric have "hd (ToString code) \<notin> set ''-0123456789''"
    by (simp only: list_all_iff) blast
  with ToString_hd show False by blast
qed

text \<open>
  C3 does not hold of the code: the listener tests \<^verbatim>\<open>error.code in kafkaJSIgnorableCodes\<close>,
  and \<^verbatim>\<open>in\<close> looks for a property named by the code, which a Set never has. The
  code 22 is an element of the set and still is not \<^verbatim>\<open>in\<close> it, so the rejection is
  counted, logged and reported to the error tracker; and so is a protocol error of any
  code.
\<close>

theorem ignorable_code_reported:
  "22 \<in> set (set_data kafkaJSIgnorableCodes)
   \<and> \<not> js_in 22 kafkaJSIgnorableCodes
   \<and> on_unhandledRejection (KafkaJSProtocolError ''ILLEGAL_GENERATION'' 22) s =
       ([StatusError ''Unhandled Promise Rejection'',
         KafkaProtocolErrorsInc ''ILLEGAL_GENERATION'' 22, SentryCaptureException],
        s, Resolves 0)
   \<and> SentryCaptureException
        \<in> set (events_of (on_unhandledRejection (KafkaJSProtocolError ty code)) s)"
  using js_in_Set_never [of 22 "[22, 25, 27]"] js_in_Set_never [of code "[22, 25, 27]"]
  by (simp add: kafkaJSIgnorableCodes_def events_of_def) (simp add: new_Set_def)

subsection \<open>Properties that steps keep along a sequence\<close>

lemma proj_call_step [simp]:
  "events_of (call_step env c upd) s = [Called c]"
  "state_of (call_step env c upd) s = (if resolved (callResult env c) then upd s else s)"
  "promise_of (call_step env c upd) s = callResult env c"
  by (cases "callResult env c"; simp add: events_of_def state_of_def promise_of_def call_step_def)+

lemma proj_try_catch:
  "events_of (try_catch body handler) s =
     (if rejected (promise_of body s)
      then events_of body s @ events_of handler (state_of body s) else events_of body s)"
  "state_of (try_catch body handler) s =
     (if rejected (promise_of body s) then state_of handler (state_of body s)
      else state_of body s)"
  "promise_of (try_catch body handler) s =
     (if rejected (promise_of body s)
      then after (settle_time (promise_of body s)) (promise_of handler (state_of body s))
      else promise_of body s)"
  by (cases "body s" rule: prod_cases3; cases "snd (snd (body s))";
      simp add: events_of_def state_of_def promise_of_def try_catch_def split: prod.splits)+

lemma keeps_run_steps: "list_all (keeps P) fs \<Longrightarrow> keeps P (run_steps fs)"
proof (induction fs)
  case Nil
  show ?case unfolding keeps_def by (simp only: state_run_Nil) simp
next
  case (Cons f fs)
  then have f: "keeps P f" and r: "keeps P (run_steps fs)" by simp_all
  show ?case
    unfolding keeps_def
  proof (intro allI impI)
    fix s assume "P s"
    with f have "P (state_of f s)" by (simp add: keeps_def)
    with r have "P (state_of (run_steps fs) (state_of f s))" by (simp add: keeps_def)
    with \<open>P (state_of f s)\<close> show "P (state_of (run_steps (f # fs)) s)"
      by (simp add: state_run_Cons)
  qed
qed

lemma keeps_guarded: "(\<And>s. P s \<Longrightarrow> c s \<Longrightarrow> P (state_of f s)) \<Longrightarrow> keeps P (guarded c f)"
  by (simp add: keeps_def proj_guarded)

lemma keeps_guarded': "keeps P f \<Longrightarrow> keeps P (guarded c f)"
  by (simp add: keeps_def proj_guarded)

lemma keeps_basic:
  "keeps P (emit e)" "keeps P skip" "keeps P throw" "keeps P (process_exit n)"
  "keeps P (awaiting e p)"
  by (simp_all add: keeps_def)

lemma keeps_assign: "(\<And>s. P s \<Longrightarrow> P (g s)) \<Longrightarrow> keeps P (assign g)"
  by (simp add: keeps_def)

lemma keeps_call_step: "(\<And>s. P s \<Longrightarrow> P (upd s)) \<Longrightarrow> keeps P (call_step env c upd)"
  by (simp add: keeps_def)

lemma keeps_try_catch: "keeps P body \<Longrightarrow> keeps P handler \<Longrightarrow> keeps P (try_catch body handler)"
  by (simp add: keeps_def proj_try_catch)

lemma keeps_closeJobs: "(\<And>s. P s \<Longrightarrow> P (s\<lparr>shuttingDown := True\<rparr>)) \<Longrightarrow> keeps P (closeJobs env)"
  by (simp add: keeps_def)

lemmas keeps_intros = keeps_run_steps keeps_guarded' keeps_basic keeps_assign keeps_call_step
  keeps_try_catch keeps_closeJobs

lemma silent_run_steps: "list_all (silent E) fs \<Longrightarrow> silent E (run_steps fs)"
proof (induction fs)
  case Nil
  show ?case unfolding silent_def by (simp only: events_run_Nil) simp
next
  case (Cons f fs)
  then have f: "silent E f" and r: "silent E (run_steps fs)" by simp_all
  show ?case
    unfolding silent_def
  proof
    fix s
    from f have "set (events_of f s) \<inter> E = {}" by (simp add: silent_def)
    moreover from r have "set (events_of (run_steps fs) (state_of f s)) \<inter> E = {}"
      by (simp add: silent_def)
    ultimately show "set (events_of (run_steps (f # fs)) s) \<inter> E = {}"
      by (auto simp add: events_run_Cons)
  qed
qed

lemma silent_guarded: "silent E f \<Longrightarrow> silent E (guarded c f)"
  by (auto simp add: silent_def proj_guarded)

lemma silent_basic:
  "silent E skip" "silent E throw" "silent E (assign g)"
  by (simp_all add: silent_def)

lemma silent_emit: "e \<notin> E \<Longrightarrow> silent E (emit e)"
  by (simp add: silent_def)

lemma silent_call_step: "Called c \<notin> E \<Longrightarrow> silent E (call_step env c upd)"
  by (simp add: silent_def)

lemmas silent_intros = silent_run_steps silent_guarded silent_basic silent_emit silent_call_step

lemma guarded_False: "guarded (\<lambda>s. False) f = skip"
  by (rule ext) (simp add: guarded_def)

lemma blob_unregistered_blocks:
  assumes "\<not> batchConsumerSet env"
  shows "list_all (keeps blob_unregistered) (blocks caps env @ joinSteps)"
  using assms
  by (simp add: blocks_def joinSteps_def jobsBlock_def ingestionBlock_def
        ingestionOverflowBlock_def asyncHandlersBlock_def asyncOnEventHandlersBlock_def
        asyncWebhooksHandlersBlock_def pubSubBlock_def sessionRecordingBlock_def
        sessionRecordingBlobBlock_def httpBlock_def getOrCreateHub_def getOrMakePiscina_def
        setServerInstance_def guarded_False)
     (auto intro!: keeps_intros simp add: blob_unregistered_def setHealthCheck_def)

lemma run_steps_append: "run_steps (fs @ gs) = run_steps (run_steps fs # gs)"
proof (rule ext)
  fix s show "run_steps (fs @ gs) s = run_steps (run_steps fs # gs) s"
  proof (induction fs arbitrary: s)
    case Nil
    show ?case by (simp split: prod.splits)
  next
    case (Cons f fs)
    show ?case
      by (cases "f s" rule: prod_cases3; cases "snd (snd (f s))")
         (auto simp add: Cons split: prod.splits promise.splits)
  qed
qed

lemma startupFailure_events:
  "events_of (startupFailure env) s =
     [SentryCaptureException, StatusError ''Launchpad failure!'', SentryFlush,
      StatusError ''Exception while starting server, shutting down!'']
     @ events_of (closeJobs env) s
     @ (if resolved (promise_of (closeJobs env) s) then [ProcessExit 1] else [])"
  by (simp add: startupFailure_def run_Cons)


lemma startupFailure_state: "state_of (startupFailure env) s = s\<lparr>shuttingDown := True\<rparr>"
  by (simp add: startupFailure_def run_Cons)

lemma started_iff: "x \<in> set (started s) \<longleftrightarrow> (x, True) \<in> set (stop_targets s)"
  by (force simp add: started_def)

lemma closeJobs_no_blob_stop:
  assumes "\<not> stopSessionRecordingBlobConsumer s"
  shows "StopRequested SessionRecordingBlobConsumer \<notin> set (events_of (closeJobs env) s)"
proof -
  from assms have "SessionRecordingBlobConsumer \<notin> set (started s)"
    by (simp add: started_iff stop_targets_def)
  with requested_subset [of env "started s"]
  have "SessionRecordingBlobConsumer \<notin> set (requested env (started s))"
    by blast
  then show ?thesis
    by (auto simp add: closeJobs_events events_stopPiscina split: option.splits)
qed

lemma closeJobs_no_calls:
  "Called c \<notin> set (events_of (closeJobs env) s)"
  "JoinCalled x \<notin> set (events_of (closeJobs env) s)"
  by (auto simp add: closeJobs_events events_stopPiscina split: option.splits)

lemma joinSteps_events:
  "events_of (run_steps joinSteps) s =
     (if joinSessionRecordingEventsConsumer s then [JoinCalled SessionRecordingEventsConsumer] else [])
     @ (if joinSessionRecordingBlobConsumer s then [JoinCalled SessionRecordingBlobConsumer] else [])"
  "state_of (run_steps joinSteps) s = s"
  "promise_of (run_steps joinSteps) s = Resolves 0"
  by (simp_all add: joinSteps_def run_Cons proj_guarded)

lemma body_events:
  "events_of (run_steps (blocks caps env @ joinSteps)) s =
     events_of (run_steps (blocks caps env)) s
     @ (if resolved (promise_of (run_steps (blocks caps env)) s)
        then events_of (run_steps joinSteps) (state_of (run_steps (blocks caps env)) s) else [])"
  "state_of (run_steps (blocks caps env @ joinSteps)) s = state_of (run_steps (blocks caps env)) s"
  "resolved (promise_of (run_steps (blocks caps env @ joinSteps)) s)
     = resolved (promise_of (run_steps (blocks caps env)) s)"
  "rejected (promise_of (run_steps (blocks caps env @ joinSteps)) s)
     = rejected (promise_of (run_steps (blocks caps env)) s)"
  by (cases "promise_of (run_steps (blocks caps env)) s";
      simp add: run_steps_append run_Cons joinSteps_events)+

lemma blocks_silent_stop_join:
  "list_all (silent (range StopRequested \<union> range JoinCalled)) (blocks caps env)"
  by (simp add: blocks_def jobsBlock_def ingestionBlock_def
        ingestionOverflowBlock_def asyncHandlersBlock_def asyncOnEventHandlersBlock_def
        asyncWebhooksHandlersBlock_def pubSubBlock_def sessionRecordingBlock_def
        sessionRecordingBlobBlock_def httpBlock_def getOrCreateHub_def getOrMakePiscina_def
        setServerInstance_def)
     (auto intro!: silent_intros)

lemma blob_unregistered_initial: "blob_unregistered initial"
  by (simp add: blob_unregistered_def initial_def)

subsection \<open>A blob ingester without a batch consumer\<close>

text \<open>
  C10: when the blob ingester has no batch consumer after \<^verbatim>\<open>start()\<close>, startup
  leaves the stop function and the join function of the blob stream undefined and
  registers no health check named \<^verbatim>\<open>session-recordings-blob\<close>; the join of the blob
  stream is not called, and neither the \<^verbatim>\<open>closeJobs\<close> of a failed startup nor any
  later \<^verbatim>\<open>closeJobs\<close> asks the ingester to stop. This holds whatever the
  capabilities and whatever else the collaborators do, in particular when the capability
  \<^verbatim>\<open>sessionRecordingBlobIngestion\<close> is enabled and \<^verbatim>\<open>start()\<close> completes.
\<close>

theorem blob_without_batch_consumer:
  assumes "\<not> batchConsumerSet env"
  shows "\<not> stopSessionRecordingBlobConsumer (state_of (startPluginsServer caps env) initial)
     \<and> \<not> joinSessionRecordingBlobConsumer (state_of (startPluginsServer caps env) initial)
     \<and> healthChecks (state_of (startPluginsServer caps env) initial) ''session-recordings-blob''
         = None
     \<and> StopRequested SessionRecordingBlobConsumer
         \<notin> set (events_of (startPluginsServer caps env) initial)
     \<and> JoinCalled SessionRecordingBlobConsumer
         \<notin> set (events_of (startPluginsServer caps env) initial)
     \<and> StopRequested SessionRecordingBlobConsumer
         \<notin> set (events_of (closeJobs env') (state_of (startPluginsServer caps env) initial))"
proof -
  let ?body = "run_steps (blocks caps env @ joinSteps)"
  let ?blocks = "run_steps (blocks caps env)"
  from assms have "list_all (keeps blob_unregistered) (blocks caps env @ joinSteps)"
    by (rule blob_unregistered_blocks)
  then have kb: "keeps blob_unregistered ?blocks"
    by (intro keeps_run_steps) simp
  then have ub: "blob_unregistered (state_of ?blocks initial)"
    using blob_unregistered_initial by (simp add: keeps_def)
  have "keeps blob_unregistered (startupFailure env)"
    by (simp add: keeps_def startupFailure_state blob_unregistered_def)
  with ub have uf: "blob_unregistered (state_of (startPluginsServer caps env) initial)"
    by (simp add: startPluginsServer_def proj_try_catch body_events keeps_def)
  have "silent (range StopRequested \<union> range JoinCalled) ?blocks"
    using blocks_silent_stop_join by (rule silent_run_steps)
  then have sb: "StopRequested SessionRecordingBlobConsumer \<notin> set (events_of ?blocks initial)"
    "JoinCalled SessionRecordingBlobConsumer \<notin> set (events_of ?blocks initial)"
    unfolding silent_def by blast+
  from ub have nb: "\<not> stopSessionRecordingBlobConsumer (state_of ?blocks initial)"
    "\<not> joinSessionRecordingBlobConsumer (state_of ?blocks initial)"
    by (simp_all add: blob_unregistered_def)
  have e1: "StopRequested SessionRecordingBlobConsumer
         \<notin> set (events_of (startPluginsServer caps env) initial)"
    using sb nb closeJobs_no_blob_stop [of "state_of ?blocks initial" env]
    by (simp add: startPluginsServer_def proj_try_catch body_events joinSteps_events
          startupFailure_events)
  have e2: "JoinCalled SessionRecordingBlobConsumer
         \<notin> set (events_of (startPluginsServer caps env) initial)"
    using sb nb closeJobs_no_calls
    by (simp add: startPluginsServer_def proj_try_catch body_events joinSteps_events
          startupFailure_events)
  from uf have "\<not> stopSessionRecordingBlobConsumer (state_of (startPluginsServer caps env) initial)"
    by (simp add: blob_unregistered_def)
  then have e3: "StopRequested SessionRecordingBlobConsumer
         \<notin> set (events_of (closeJobs env') (state_of (startPluginsServer caps env) initial))"
    by (rule closeJobs_no_blob_stop)
  from uf e1 e2 e3 show ?thesis
    by (simp add: blob_unregistered_def)
qed

text \<open>
  An instance: only \<^verbatim>\<open>sessionRecordingBlobIngestion\<close> is enabled, the ingester is
  started and startup returns.
\<close>

theorem blob_without_batch_consumer_witness:
  "startPluginsServer (no_capabilities\<lparr>sessionRecordingBlobIngestion := True\<rparr>)
       (quiet_env\<lparr>batchConsumerSet := False\<rparr>) initial =
     ([Called SessionRecordingBlobConsumerConfig, Called CreatePostgresPool,
       Called NewTeamManager, Called GetObjectStorage, Called CreateRedisPool,
       Called NewSessionRecordingBlobIngester, Called IngesterStart],
      initial, Resolves 0)
   \<and> healthChecks (state_of (startPluginsServer (no_capabilities\<lparr>sessionRecordingBlobIngestion := True\<rparr>)
       (quiet_env\<lparr>batchConsumerSet := False\<rparr>)) initial) ''session-recordings-blob'' = None
   \<and> StopRequested SessionRecordingBlobConsumer
         \<notin> set (events_of (closeJobs quiet_env)
             (state_of (startPluginsServer (no_capabilities\<lparr>sessionRecordingBlobIngestion := True\<rparr>)
                (quiet_env\<lparr>batchConsumerSet := False\<rparr>)) initial))"
proof -
  have h: "\<not> batchConsumerSet (quiet_env\<lparr>batchConsumerSet := False\<rparr>)"
    by simp
  have r: "startPluginsServer (no_capabilities\<lparr>sessionRecordingBlobIngestion := True\<rparr>)
       (quiet_env\<lparr>batchConsumerSet := False\<rparr>) initial =
     ([Called SessionRecordingBlobConsumerConfig, Called CreatePostgresPool,
       Called NewTeamManager, Called GetObjectStorage, Called CreateRedisPool,
       Called NewSessionRecordingBlobIngester, Called IngesterStart],
      initial, Resolves 0)"
    by (simp add: step_defs block_defs no_capabilities_def quiet_env_def initial_def)
  from r blob_without_batch_consumer [OF h, of "no_capabilities\<lparr>sessionRecordingBlobIngestion := True\<rparr>" quiet_env]
  show ?thesis by blast
qed

subsection \<open>Startup with both async handler capabilities\<close>

lemma settled_after [simp]: "settled (after t r) = settled r"
  by (cases r) simp_all

















subsection \<open>The Hub and the worker pool are built once\<close>

lemma count_list_0: "x \<notin> set xs \<Longrightarrow> count_list xs x = 0"
  by (induction xs) auto

lemma frugal_run_steps: "list_all (frugal c held) fs \<Longrightarrow> frugal c held (run_steps fs)"
proof (induction fs)
  case Nil
  show ?case unfolding frugal_def
    by (simp only: events_run_Nil state_run_Nil promise_run_Nil) simp
next
  case (Cons f fs)
  then have f: "frugal c held f" and r: "frugal c held (run_steps fs)" by simp_all
  show ?case
    unfolding frugal_def
  proof (intro allI)
    fix s
    let ?s' = "state_of f s"
    from f have f1: "held s \<longrightarrow> Called c \<notin> set (events_of f s) \<and> held ?s'"
      and f2: "count_list (events_of f s) (Called c) \<le> 1"
      and f3: "Called c \<in> set (events_of f s) \<and> resolved (promise_of f s) \<longrightarrow> held ?s'"
      by (simp_all add: frugal_def)
    from r have r1: "held ?s' \<longrightarrow> Called c \<notin> set (events_of (run_steps fs) ?s')
          \<and> held (state_of (run_steps fs) ?s')"
      and r2: "count_list (events_of (run_steps fs) ?s') (Called c) \<le> 1"
      and r3: "Called c \<in> set (events_of (run_steps fs) ?s')
          \<and> resolved (promise_of (run_steps fs) ?s') \<longrightarrow> held (state_of (run_steps fs) ?s')"
      by (simp_all add: frugal_def)
    show "(held s \<longrightarrow> Called c \<notin> set (events_of (run_steps (f # fs)) s)
              \<and> held (state_of (run_steps (f # fs)) s))
        \<and> count_list (events_of (run_steps (f # fs)) s) (Called c) \<le> 1
        \<and> (Called c \<in> set (events_of (run_steps (f # fs)) s)
             \<and> resolved (promise_of (run_steps (f # fs)) s)
             \<longrightarrow> held (state_of (run_steps (f # fs)) s))"
    proof (cases "resolved (promise_of f s)")
      case False
      with f1 f2 show ?thesis by (simp add: run_Cons)
    next
      case True
      have c: "count_list (events_of f s) (Called c)
                 + count_list (events_of (run_steps fs) ?s') (Called c) \<le> 1"
      proof (cases "Called c \<in> set (events_of f s)")
        case True
        with f3 \<open>resolved (promise_of f s)\<close> r1
        have "count_list (events_of (run_steps fs) ?s') (Called c) = 0"
          by (simp add: count_list_0)
        with f2 show ?thesis by simp
      next
        case False
        then have "count_list (events_of f s) (Called c) = 0" by (simp add: count_list_0)
        with r2 show ?thesis by simp
      qed
      from True f1 f3 r1 r3 c show ?thesis
        by (auto simp add: run_Cons)
    qed
  qed
qed

lemma frugal_guarded: "frugal c held f \<Longrightarrow> frugal c held (guarded g f)"
  by (simp add: frugal_def proj_guarded)

lemma frugal_basic:
  "frugal c held skip" "frugal c held throw"
  by (simp_all add: frugal_def)

lemma frugal_emit: "e \<noteq> Called c \<Longrightarrow> frugal c held (emit e)"
  by (auto simp add: frugal_def)

lemma frugal_assign: "(\<And>s. held s \<Longrightarrow> held (g s)) \<Longrightarrow> frugal c held (assign g)"
  by (simp add: frugal_def)

lemma frugal_call_step:
  "c' \<noteq> c \<Longrightarrow> (\<And>s. held s \<Longrightarrow> held (upd s)) \<Longrightarrow> frugal c held (call_step env c' upd)"
  by (auto simp add: frugal_def)

lemma frugal_getOrCreateHub: "frugal CreateHub hub_held (getOrCreateHub env)"
  by (auto simp add: frugal_def getOrCreateHub_def proj_guarded hub_held_def)

lemma frugal_getOrMakePiscina: "frugal MakePiscina piscina_held (getOrMakePiscina env)"
  by (auto simp add: frugal_def getOrMakePiscina_def proj_guarded piscina_held_def)

lemma frugal_getOrCreateHub_piscina:
  "frugal MakePiscina piscina_held (getOrCreateHub env)"
  unfolding getOrCreateHub_def
  by (intro frugal_guarded frugal_call_step) (simp_all add: piscina_held_def)

lemma frugal_getOrMakePiscina_hub:
  "frugal CreateHub hub_held (getOrMakePiscina env)"
  unfolding getOrMakePiscina_def
  by (intro frugal_guarded frugal_call_step) (simp_all add: hub_held_def)

lemmas frugal_intros = frugal_run_steps frugal_guarded frugal_basic frugal_emit frugal_assign
  frugal_call_step frugal_getOrCreateHub frugal_getOrMakePiscina frugal_getOrCreateHub_piscina
  frugal_getOrMakePiscina_hub

lemmas block_structure = blocks_def joinSteps_def jobsBlock_def ingestionBlock_def
  ingestionOverflowBlock_def asyncHandlersBlock_def asyncOnEventHandlersBlock_def
  asyncWebhooksHandlersBlock_def pubSubBlock_def sessionRecordingBlock_def
  sessionRecordingBlobBlock_def httpBlock_def setServerInstance_def

lemma blocks_frugal_hub:
  "list_all (frugal CreateHub hub_held) (blocks caps env @ joinSteps)"
  by (simp add: block_structure)
     (auto intro!: frugal_intros simp add: setHealthCheck_def hub_held_def piscina_held_def)

lemma blocks_frugal_piscina:
  "list_all (frugal MakePiscina piscina_held) (blocks caps env @ joinSteps)"
  by (simp add: block_structure)
     (auto intro!: frugal_intros simp add: setHealthCheck_def hub_held_def piscina_held_def)

lemma keeps_hub_getOrCreateHub:
  "keeps (\<lambda>s. hub s = Some h \<and> closeHub s = Some r) (getOrCreateHub env)"
  unfolding getOrCreateHub_def by (rule keeps_guarded) simp

lemma keeps_hub_getOrMakePiscina:
  "keeps (\<lambda>s. hub s = Some h \<and> closeHub s = Some r) (getOrMakePiscina env)"
  unfolding getOrMakePiscina_def by (intro keeps_guarded' keeps_call_step) simp

lemma keeps_piscina_getOrMakePiscina:
  "keeps (\<lambda>s. piscina s = Some p) (getOrMakePiscina env)"
  unfolding getOrMakePiscina_def by (rule keeps_guarded) simp

lemma keeps_piscina_getOrCreateHub:
  "keeps (\<lambda>s. piscina s = Some p) (getOrCreateHub env)"
  unfolding getOrCreateHub_def by (intro keeps_guarded' keeps_call_step) simp

lemma blocks_keep_hub:
  "list_all (keeps (\<lambda>s. hub s = Some h \<and> closeHub s = Some r)) (blocks caps env)"
  by (simp add: block_structure)
     (auto intro!: keeps_intros keeps_hub_getOrCreateHub keeps_hub_getOrMakePiscina
        simp add: setHealthCheck_def)

lemma blocks_keep_piscina:
  "list_all (keeps (\<lambda>s. piscina s = Some p)) (blocks caps env)"
  by (simp add: block_structure)
     (auto intro!: keeps_intros keeps_piscina_getOrCreateHub keeps_piscina_getOrMakePiscina
        simp add: setHealthCheck_def)

lemma count_startPluginsServer:
  assumes "frugal c held (run_steps (blocks caps env @ joinSteps))"
  shows "count_list (events_of (startPluginsServer caps env) s) (Called c) \<le> 1"
proof -
  from assms have "count_list (events_of (run_steps (blocks caps env @ joinSteps)) s) (Called c) \<le> 1"
    by (simp add: frugal_def)
  moreover have "count_list (events_of (startupFailure env) s') (Called c) = 0" for s'
    using closeJobs_no_calls(1) [of c env s']
    by (intro count_list_0) (simp add: startupFailure_events)
  ultimately show ?thesis
    by (simp add: startPluginsServer_def proj_try_catch)
qed

lemma jobsBlock_builds_hub:
  assumes "processPluginJobs caps \<or> pluginScheduledTasks caps" "hub s = None"
  shows "Called CreateHub \<in> set (events_of (jobsBlock caps env) s)"
    and "resolved (callResult env CreateHub)
         \<Longrightarrow> hub (state_of (jobsBlock caps env) s) = Some ((newHub env)\<lparr>ref := nextRef s\<rparr>)
             \<and> closeHub (state_of (jobsBlock caps env) s) = Some (nextRef s)"
  using assms
  by (simp_all add: jobsBlock_def proj_guarded run_Cons getOrCreateHub_def getOrMakePiscina_def
        setServerInstance_def setHealthCheck_def)

lemma jobsBlock_builds_pool:
  assumes "processPluginJobs caps \<or> pluginScheduledTasks caps" "piscina s = None" "hub s \<noteq> None \<or> resolved (callResult env CreateHub)" "resolved (callResult env NewGraphileWorker)" "resolved (callResult env ConnectProducer)"
  shows "Called MakePiscina \<in> set (events_of (jobsBlock caps env) s)"
    and "resolved (callResult env MakePiscina)
         \<Longrightarrow> piscina (state_of (jobsBlock caps env) s)
             = Some (if hub s = None then Suc (nextRef s) else nextRef s)"
  using assms
  by (auto simp add: jobsBlock_def proj_guarded run_Cons getOrCreateHub_def getOrMakePiscina_def
        setServerInstance_def setHealthCheck_def)

lemma ingestionBlock_builds_hub:
  assumes "ingestion caps" "hub s = None"
  shows "Called CreateHub \<in> set (events_of (ingestionBlock caps env) s)"
    and "resolved (callResult env CreateHub)
         \<Longrightarrow> hub (state_of (ingestionBlock caps env) s) = Some ((newHub env)\<lparr>ref := nextRef s\<rparr>)
             \<and> closeHub (state_of (ingestionBlock caps env) s) = Some (nextRef s)"
  using assms
  by (simp_all add: ingestionBlock_def proj_guarded run_Cons getOrCreateHub_def getOrMakePiscina_def
        setServerInstance_def setHealthCheck_def)

lemma ingestionBlock_builds_pool:
  assumes "ingestion caps" "piscina s = None" "hub s \<noteq> None \<or> resolved (callResult env CreateHub)"
  shows "Called MakePiscina \<in> set (events_of (ingestionBlock caps env) s)"
    and "resolved (callResult env MakePiscina)
         \<Longrightarrow> piscina (state_of (ingestionBlock caps env) s)
             = Some (if hub s = None then Suc (nextRef s) else nextRef s)"
  using assms
  by (auto simp add: ingestionBlock_def proj_guarded run_Cons getOrCreateHub_def getOrMakePiscina_def
        setServerInstance_def setHealthCheck_def)

lemma ingestionOverflowBlock_builds_hub:
  assumes "ingestionOverflow caps" "hub s = None"
  shows "Called CreateHub \<in> set (events_of (ingestionOverflowBlock caps env) s)"
    and "resolved (callResult env CreateHub)
         \<Longrightarrow> hub (state_of (ingestionOverflowBlock caps env) s) = Some ((newHub env)\<lparr>ref := nextRef s\<rparr>)
             \<and> closeHub (state_of (ingestionOverflowBlock caps env) s) = Some (nextRef s)"
  using assms
  by (simp_all add: ingestionOverflowBlock_def proj_guarded run_Cons getOrCreateHub_def getOrMakePiscina_def
        setServerInstance_def setHealthCheck_def)

lemma ingestionOverflowBlock_builds_pool:
  assumes "ingestionOverflow caps" "piscina s = None" "hub s \<noteq> None \<or> resolved (callResult env CreateHub)"
  shows "Called MakePiscina \<in> set (events_of (ingestionOverflowBlock caps env) s)"
    and "resolved (callResult env MakePiscina)
         \<Longrightarrow> piscina (state_of (ingestionOverflowBlock caps env) s)
             = Some (if hub s = None then Suc (nextRef s) else nextRef s)"
  using assms
  by (auto simp add: ingestionOverflowBlock_def proj_guarded run_Cons getOrCreateHub_def getOrMakePiscina_def
        setServerInstance_def setHealthCheck_def)

lemma asyncHandlersBlock_builds_hub:
  assumes "processAsyncHandlers caps" "hub s = None"
  shows "Called CreateHub \<in> set (events_of (asyncHandlersBlock caps env) s)"
    and "resolved (callResult env CreateHub)
         \<Longrightarrow> hub (state_of (asyncHandlersBlock caps env) s) = Some ((newHub env)\<lparr>ref := nextRef s\<rparr>)
             \<and> closeHub (state_of (asyncHandlersBlock caps env) s) = Some (nextRef s)"
  using assms
  by (simp_all add: asyncHandlersBlock_def proj_guarded run_Cons getOrCreateHub_def getOrMakePiscina_def
        setServerInstance_def setHealthCheck_def)

lemma asyncHandlersBlock_builds_pool:
  assumes "processAsyncHandlers caps" "piscina s = None" "hub s \<noteq> None \<or> resolved (callResult env CreateHub)"
  shows "Called MakePiscina \<in> set (events_of (asyncHandlersBlock caps env) s)"
    and "resolved (callResult env MakePiscina)
         \<Longrightarrow> piscina (state_of (asyncHandlersBlock caps env) s)
             = Some (if hub s = None then Suc (nextRef s) else nextRef s)"
  using assms
  by (auto simp add: asyncHandlersBlock_def proj_guarded run_Cons getOrCreateHub_def getOrMakePiscina_def
        setServerInstance_def setHealthCheck_def)

lemma asyncOnEventHandlersBlock_builds_hub:
  assumes "processAsyncOnEventHandlers caps \<and> \<not> processAsyncHandlers caps" "hub s = None"
  shows "Called CreateHub \<in> set (events_of (asyncOnEventHandlersBlock caps env) s)"
    and "resolved (callResult env CreateHub)
         \<Longrightarrow> hub (state_of (asyncOnEventHandlersBlock caps env) s) = Some ((newHub env)\<lparr>ref := nextRef s\<rparr>)
             \<and> closeHub (state_of (asyncOnEventHandlersBlock caps env) s) = Some (nextRef s)"
  using assms
  by (simp_all add: asyncOnEventHandlersBlock_def proj_guarded run_Cons getOrCreateHub_def getOrMakePiscina_def
        setServerInstance_def setHealthCheck_def)

lemma asyncOnEventHandlersBlock_builds_pool:
  assumes "processAsyncOnEventHandlers caps \<and> \<not> processAsyncHandlers caps" "piscina s = None" "hub s \<noteq> None \<or> resolved (callResult env CreateHub)"
  shows "Called MakePiscina \<in> set (events_of (asyncOnEventHandlersBlock caps env) s)"
    and "resolved (callResult env MakePiscina)
         \<Longrightarrow> piscina (state_of (asyncOnEventHandlersBlock caps env) s)
             = Some (if hub s = None then Suc (nextRef s) else nextRef s)"
  using assms
  by (auto simp add: asyncOnEventHandlersBlock_def proj_guarded run_Cons getOrCreateHub_def getOrMakePiscina_def
        setServerInstance_def setHealthCheck_def)

lemma asyncWebhooksHandlersBlock_builds_hub:
  assumes "processAsyncWebhooksHandlers caps \<and> \<not> processAsyncHandlers caps" "hub s = None"
  shows "Called CreateHub \<in> set (events_of (asyncWebhooksHandlersBlock caps env) s)"
    and "resolved (callResult env CreateHub)
         \<Longrightarrow> hub (state_of (asyncWebhooksHandlersBlock caps env) s) = Some ((newHub env)\<lparr>ref := nextRef s\<rparr>)
             \<and> closeHub (state_of (asyncWebhooksHandlersBlock caps env) s) = Some (nextRef s)"
  using assms
  by (simp_all add: asyncWebhooksHandlersBlock_def proj_guarded run_Cons getOrCreateHub_def getOrMakePiscina_def
        setServerInstance_def setHealthCheck_def)

lemma asyncWebhooksHandlersBlock_builds_pool:
  assumes "processAsyncWebhooksHandlers caps \<and> \<not> processAsyncHandlers caps" "piscina s = None" "hub s \<noteq> None \<or> resolved (callResult env CreateHub)"
  shows "Called MakePiscina \<in> set (events_of (asyncWebhooksHandlersBlock caps env) s)"
    and "resolved (callResult env MakePiscina)
         \<Longrightarrow> piscina (state_of (asyncWebhooksHandlersBlock caps env) s)
             = Some (if hub s = None then Suc (nextRef s) else nextRef s)"
  using assms
  by (auto simp add: asyncWebhooksHandlersBlock_def proj_guarded run_Cons getOrCreateHub_def getOrMakePiscina_def
        setServerInstance_def setHealthCheck_def)

lemma count_list_pos: "x \<in> set xs \<Longrightarrow> 0 < count_list xs x"
  by (induction xs) auto

lemma run_steps_skip: "run_steps (skip # fs) = run_steps fs"
  by (rule ext) (simp add: skip_def split: prod.splits)

lemma disabled_blocks:
  "\<not> (processPluginJobs caps \<or> pluginScheduledTasks caps) \<Longrightarrow> jobsBlock caps env = skip"
  "\<not> ingestion caps \<Longrightarrow> ingestionBlock caps env = skip"
  "\<not> ingestionOverflow caps \<Longrightarrow> ingestionOverflowBlock caps env = skip"
  "\<not> processAsyncHandlers caps \<Longrightarrow> asyncHandlersBlock caps env = skip"
  "\<not> processAsyncOnEventHandlers caps \<Longrightarrow> asyncOnEventHandlersBlock caps env = skip"
  "\<not> processAsyncWebhooksHandlers caps \<Longrightarrow> asyncWebhooksHandlersBlock caps env = skip"
  by (simp_all add: jobsBlock_def ingestionBlock_def ingestionOverflowBlock_def
        asyncHandlersBlock_def asyncOnEventHandlersBlock_def asyncWebhooksHandlersBlock_def
        guarded_False)

lemma head_events: "set (events_of f s) \<subseteq> set (events_of (run_steps (f # fs)) s)"
  by (simp add: events_run_Cons)

lemma blocks_first:
  assumes "needs_hub caps"
  shows "\<exists>b rest. b \<in> set (builders caps env)
           \<and> run_steps (blocks caps env) = run_steps (b # rest)"
proof (cases "processPluginJobs caps \<or> pluginScheduledTasks caps")
  case True
  then show ?thesis
    by (intro exI [of _ "jobsBlock caps env"] exI [of _ "tl (blocks caps env)"])
       (simp add: builders_def blocks_def)
next
  case j: False
  show ?thesis
  proof (cases "ingestion caps")
    case True
    with j show ?thesis
      by (intro exI [of _ "ingestionBlock caps env"])
         (simp add: builders_def blocks_def disabled_blocks run_steps_skip; blast)
  next
    case i: False
    show ?thesis
    proof (cases "ingestionOverflow caps")
      case True
      with j i show ?thesis
        by (intro exI [of _ "ingestionOverflowBlock caps env"])
           (simp add: builders_def blocks_def disabled_blocks run_steps_skip; blast)
    next
      case ov: False
      show ?thesis
      proof (cases "processAsyncHandlers caps")
        case True
        with j i ov show ?thesis
          by (intro exI [of _ "asyncHandlersBlock caps env"])
             (simp add: builders_def blocks_def disabled_blocks run_steps_skip; blast)
      next
        case a: False
        show ?thesis
        proof (cases "processAsyncOnEventHandlers caps")
          case True
          with j i ov a show ?thesis
            by (intro exI [of _ "asyncOnEventHandlersBlock caps env"])
               (simp add: builders_def blocks_def disabled_blocks run_steps_skip; blast)
        next
          case e: False
          with assms j i ov a have w: "processAsyncWebhooksHandlers caps"
            by (simp add: needs_hub_def)
          with j i ov a e show ?thesis
            by (intro exI [of _ "asyncWebhooksHandlersBlock caps env"])
               (simp add: builders_def blocks_def disabled_blocks run_steps_skip; blast)
        qed
      qed
    qed
  qed
qed

lemma builders_build:
  assumes "b \<in> set (builders caps env)"
  shows "hub s = None \<Longrightarrow> Called CreateHub \<in> set (events_of b s)"
    and "hub s = None \<Longrightarrow> resolved (callResult env CreateHub)
         \<Longrightarrow> hub (state_of b s) = Some ((newHub env)\<lparr>ref := nextRef s\<rparr>)
             \<and> closeHub (state_of b s) = Some (nextRef s)"
    and "piscina s = None \<Longrightarrow> hub s \<noteq> None \<or> resolved (callResult env CreateHub)
         \<Longrightarrow> (processPluginJobs caps \<or> pluginScheduledTasks caps
              \<longrightarrow> resolved (callResult env NewGraphileWorker)
                  \<and> resolved (callResult env ConnectProducer))
         \<Longrightarrow> Called MakePiscina \<in> set (events_of b s)"
    and "piscina s = None \<Longrightarrow> hub s \<noteq> None \<or> resolved (callResult env CreateHub)
         \<Longrightarrow> (processPluginJobs caps \<or> pluginScheduledTasks caps
              \<longrightarrow> resolved (callResult env NewGraphileWorker)
                  \<and> resolved (callResult env ConnectProducer))
         \<Longrightarrow> resolved (callResult env MakePiscina)
         \<Longrightarrow> piscina (state_of b s) = Some (if hub s = None then Suc (nextRef s) else nextRef s)"
proof -
  from assms consider
      (j) "b = jobsBlock caps env" "processPluginJobs caps \<or> pluginScheduledTasks caps"
    | (i) "b = ingestionBlock caps env" "ingestion caps"
    | (ov) "b = ingestionOverflowBlock caps env" "ingestionOverflow caps"
    | (a) "b = asyncHandlersBlock caps env" "processAsyncHandlers caps"
    | (e) "b = asyncOnEventHandlersBlock caps env"
          "processAsyncOnEventHandlers caps \<and> \<not> processAsyncHandlers caps"
    | (w) "b = asyncWebhooksHandlersBlock caps env"
          "processAsyncWebhooksHandlers caps \<and> \<not> processAsyncHandlers caps"
    by (auto simp add: builders_def split: if_splits)
  note c = this
  show "hub s = None \<Longrightarrow> Called CreateHub \<in> set (events_of b s)"
    using c
    by cases
       (simp_all add: jobsBlock_builds_hub ingestionBlock_builds_hub
          ingestionOverflowBlock_builds_hub asyncHandlersBlock_builds_hub
          asyncOnEventHandlersBlock_builds_hub asyncWebhooksHandlersBlock_builds_hub)
  show "hub s = None \<Longrightarrow> resolved (callResult env CreateHub)
         \<Longrightarrow> hub (state_of b s) = Some ((newHub env)\<lparr>ref := nextRef s\<rparr>)
             \<and> closeHub (state_of b s) = Some (nextRef s)"
    using c
    by cases
       (simp_all add: jobsBlock_builds_hub ingestionBlock_builds_hub
          ingestionOverflowBlock_builds_hub asyncHandlersBlock_builds_hub
          asyncOnEventHandlersBlock_builds_hub asyncWebhooksHandlersBlock_builds_hub)
  show "piscina s = None \<Longrightarrow> hub s \<noteq> None \<or> resolved (callResult env CreateHub)
         \<Longrightarrow> (processPluginJobs caps \<or> pluginScheduledTasks caps
              \<longrightarrow> resolved (callResult env NewGraphileWorker)
                  \<and> resolved (callResult env ConnectProducer))
         \<Longrightarrow> Called MakePiscina \<in> set (events_of b s)"
    using c
    by cases
       (simp_all add: jobsBlock_builds_pool ingestionBlock_builds_pool
          ingestionOverflowBlock_builds_pool asyncHandlersBlock_builds_pool
          asyncOnEventHandlersBlock_builds_pool asyncWebhooksHandlersBlock_builds_pool)
  show "piscina s = None \<Longrightarrow> hub s \<noteq> None \<or> resolved (callResult env CreateHub)
         \<Longrightarrow> (processPluginJobs caps \<or> pluginScheduledTasks caps
              \<longrightarrow> resolved (callResult env NewGraphileWorker)
                  \<and> resolved (callResult env ConnectProducer))
         \<Longrightarrow> resolved (callResult env MakePiscina)
         \<Longrightarrow> piscina (state_of b s) = Some (if hub s = None then Suc (nextRef s) else nextRef s)"
    using c
    by cases
       (simp_all add: jobsBlock_builds_pool ingestionBlock_builds_pool
          ingestionOverflowBlock_builds_pool asyncHandlersBlock_builds_pool
          asyncOnEventHandlersBlock_builds_pool asyncWebhooksHandlersBlock_builds_pool)
qed

lemma startup_contains_blocks:
  "set (events_of (run_steps (blocks caps env)) s)
     \<subseteq> set (events_of (startPluginsServer caps env) s)"
  by (auto simp add: startPluginsServer_def proj_try_catch body_events)

lemma needed_is_built:
  assumes "needs_hub caps"
  shows "Called CreateHub \<in> set (events_of (startPluginsServer caps env) initial)"
    and "resolved (callResult env CreateHub)
         \<Longrightarrow> (processPluginJobs caps \<or> pluginScheduledTasks caps
              \<longrightarrow> resolved (callResult env NewGraphileWorker)
                  \<and> resolved (callResult env ConnectProducer))
         \<Longrightarrow> Called MakePiscina \<in> set (events_of (startPluginsServer caps env) initial)"
proof -
  from assms obtain b rest where b: "b \<in> set (builders caps env)"
    and r: "run_steps (blocks caps env) = run_steps (b # rest)"
    using blocks_first by blast
  have i: "hub initial = None" "piscina initial = None"
    by (simp_all add: initial_def)
  from builders_build(1) [OF b i(1)]
  have "Called CreateHub \<in> set (events_of (run_steps (blocks caps env)) initial)"
    unfolding r using head_events by blast
  then show "Called CreateHub \<in> set (events_of (startPluginsServer caps env) initial)"
    using startup_contains_blocks by blast
  assume "resolved (callResult env CreateHub)"
    and "processPluginJobs caps \<or> pluginScheduledTasks caps
              \<longrightarrow> resolved (callResult env NewGraphileWorker)
                  \<and> resolved (callResult env ConnectProducer)"
  then have "Called MakePiscina \<in> set (events_of b initial)"
    using builders_build(3) [OF b i(2)] by blast
  then have "Called MakePiscina \<in> set (events_of (run_steps (blocks caps env)) initial)"
    unfolding r using head_events by blast
  then show "Called MakePiscina \<in> set (events_of (startPluginsServer caps env) initial)"
    using startup_contains_blocks by blast
qed

lemma not_needed_is_not_built:
  assumes "\<not> needs_hub caps"
  shows "Called CreateHub \<notin> set (events_of (startPluginsServer caps env) initial)"
    and "Called MakePiscina \<notin> set (events_of (startPluginsServer caps env) initial)"
proof -
  from assms have "list_all (silent {Called CreateHub, Called MakePiscina}) (blocks caps env)"
    by (simp add: needs_hub_def blocks_def disabled_blocks pubSubBlock_def
          sessionRecordingBlock_def sessionRecordingBlobBlock_def httpBlock_def)
       (auto intro!: silent_intros)
  then have "silent {Called CreateHub, Called MakePiscina} (run_steps (blocks caps env))"
    by (rule silent_run_steps)
  then have b: "Called CreateHub \<notin> set (events_of (run_steps (blocks caps env)) initial)"
    "Called MakePiscina \<notin> set (events_of (run_steps (blocks caps env)) initial)"
    unfolding silent_def by blast+
  from b(1) closeJobs_no_calls(1) [of CreateHub env]
  show "Called CreateHub \<notin> set (events_of (startPluginsServer caps env) initial)"
    by (simp add: startPluginsServer_def proj_try_catch body_events joinSteps_events
          startupFailure_events)
  from b(2) closeJobs_no_calls(1) [of MakePiscina env]
  show "Called MakePiscina \<notin> set (events_of (startPluginsServer caps env) initial)"
    by (simp add: startPluginsServer_def proj_try_catch body_events joinSteps_events
          startupFailure_events)
qed

lemma blocks_reuse_hub:
  assumes "b \<in> set (blocks caps env)" "hub s = Some h \<and> closeHub s = Some r"
  shows "hub (state_of b s) = Some h \<and> closeHub (state_of b s) = Some r
         \<and> Called CreateHub \<notin> set (events_of b s)"
proof -
  from assms(1) blocks_keep_hub [of h r caps env]
  have "keeps (\<lambda>s. hub s = Some h \<and> closeHub s = Some r) b"
    by (simp add: list_all_iff)
  with assms(2) have "hub (state_of b s) = Some h \<and> closeHub (state_of b s) = Some r"
    by (simp add: keeps_def)
  moreover from assms(1) blocks_frugal_hub [of caps env] have "frugal CreateHub hub_held b"
    by (simp add: list_all_iff)
  with assms(2) have "Called CreateHub \<notin> set (events_of b s)"
    by (simp add: frugal_def hub_held_def)
  ultimately show ?thesis by simp
qed

lemma blocks_reuse_pool:
  assumes "b \<in> set (blocks caps env)" "piscina s = Some p"
  shows "piscina (state_of b s) = Some p \<and> Called MakePiscina \<notin> set (events_of b s)"
proof -
  from assms(1) blocks_keep_piscina [of p caps env] have "keeps (\<lambda>s. piscina s = Some p) b"
    by (simp add: list_all_iff)
  with assms(2) have "piscina (state_of b s) = Some p"
    by (simp add: keeps_def)
  moreover from assms(1) blocks_frugal_piscina [of caps env]
  have "frugal MakePiscina piscina_held b"
    by (simp add: list_all_iff)
  with assms(2) have "Called MakePiscina \<notin> set (events_of b s)"
    by (simp add: frugal_def piscina_held_def)
  ultimately show ?thesis by simp
qed

lemma builders_inline:
  "builders caps env =
            (if processPluginJobs caps \<or> pluginScheduledTasks caps then [jobsBlock caps env] else [])
            @ (if ingestion caps then [ingestionBlock caps env] else [])
            @ (if ingestionOverflow caps then [ingestionOverflowBlock caps env] else [])
            @ (if processAsyncHandlers caps then [asyncHandlersBlock caps env] else [])
            @ (if processAsyncOnEventHandlers caps \<and> \<not> processAsyncHandlers caps
               then [asyncOnEventHandlersBlock caps env] else [])
            @ (if processAsyncWebhooksHandlers caps \<and> \<not> processAsyncHandlers caps
               then [asyncWebhooksHandlersBlock caps env] else [])"
  by (simp add: builders_def)

text \<open>
  C6: for every set of capabilities and whatever the collaborators do, a run of
  \<^verbatim>\<open>startPluginsServer\<close> calls \<^verbatim>\<open>createHub\<close> at most once and
  \<^verbatim>\<open>makePiscina\<close> at most once. A capability block that finds the Hub and its close
  function in their variables leaves both as they are and does not call
  \<^verbatim>\<open>createHub\<close>; one that finds the worker pool leaves it as it is and does not call
  \<^verbatim>\<open>makePiscina\<close>. The Hub is built exactly when a capability needs it: the run
  calls \<^verbatim>\<open>createHub\<close> once when one of the seven capabilities of the first six
  blocks is enabled, and neither \<^verbatim>\<open>createHub\<close> nor \<^verbatim>\<open>makePiscina\<close> otherwise;
  it calls \<^verbatim>\<open>makePiscina\<close> once when moreover the steps before the pool resolve
  (\<^verbatim>\<open>createHub\<close>, and in the jobs block the graphile worker and its producer). And
  every enabled block that needs them builds what it does not find: run where the Hub is
  undefined it calls \<^verbatim>\<open>createHub\<close> and stores the new Hub and its close function;
  run where the pool is undefined, having or having built the Hub, it calls
  \<^verbatim>\<open>makePiscina\<close> and stores the new pool. (The onEvent and webhooks blocks build
  nothing when \<^verbatim>\<open>processAsyncHandlers\<close> is enabled too: their guard throws first.)
\<close>

theorem hub_and_pool_constructed_once:
  "count_list (events_of (startPluginsServer caps env) initial) (Called CreateHub) \<le> 1
   \<and> count_list (events_of (startPluginsServer caps env) initial) (Called MakePiscina) \<le> 1
   \<and> (\<forall>b \<in> set (blocks caps env). \<forall>s h r.
         hub s = Some h \<and> closeHub s = Some r
         \<longrightarrow> hub (state_of b s) = Some h \<and> closeHub (state_of b s) = Some r
             \<and> Called CreateHub \<notin> set (events_of b s))
   \<and> (\<forall>b \<in> set (blocks caps env). \<forall>s p.
         piscina s = Some p
         \<longrightarrow> piscina (state_of b s) = Some p \<and> Called MakePiscina \<notin> set (events_of b s))
   \<and> (let needed = (processPluginJobs caps \<or> pluginScheduledTasks caps \<or> ingestion caps
               \<or> ingestionOverflow caps \<or> processAsyncHandlers caps
               \<or> processAsyncOnEventHandlers caps \<or> processAsyncWebhooksHandlers caps)
       in count_list (events_of (startPluginsServer caps env) initial) (Called CreateHub)
            = (if needed then 1 else 0)
          \<and> (\<not> needed
              \<longrightarrow> count_list (events_of (startPluginsServer caps env) initial)
                    (Called MakePiscina) = 0)
          \<and> (needed \<and> resolved (callResult env CreateHub)
              \<and> (processPluginJobs caps \<or> pluginScheduledTasks caps
                \<longrightarrow> resolved (callResult env NewGraphileWorker)
                    \<and> resolved (callResult env ConnectProducer))
              \<longrightarrow> count_list (events_of (startPluginsServer caps env) initial)
                    (Called MakePiscina) = 1))
   \<and> (\<forall>b \<in> set ((if processPluginJobs caps \<or> pluginScheduledTasks caps then [jobsBlock caps env] else [])
            @ (if ingestion caps then [ingestionBlock caps env] else [])
            @ (if ingestionOverflow caps then [ingestionOverflowBlock caps env] else [])
            @ (if processAsyncHandlers caps then [asyncHandlersBlock caps env] else [])
            @ (if processAsyncOnEventHandlers caps \<and> \<not> processAsyncHandlers caps
               then [asyncOnEventHandlersBlock caps env] else [])
            @ (if processAsyncWebhooksHandlers caps \<and> \<not> processAsyncHandlers caps
               then [asyncWebhooksHandlersBlock caps env] else [])).
        \<forall>s. (hub s = None
              \<longrightarrow> Called CreateHub \<in> set (events_of b s)
                  \<and> (resolved (callResult env CreateHub)
                      \<longrightarrow> hub (state_of b s) = Some ((newHub env)\<lparr>ref := nextRef s\<rparr>)
                          \<and> closeHub (state_of b s) = Some (nextRef s)))
           \<and> (piscina s = None \<and> (hub s \<noteq> None \<or> resolved (callResult env CreateHub))
              \<and> (processPluginJobs caps \<or> pluginScheduledTasks caps
                \<longrightarrow> resolved (callResult env NewGraphileWorker)
                    \<and> resolved (callResult env ConnectProducer))
              \<longrightarrow> Called MakePiscina \<in> set (events_of b s)
                  \<and> (resolved (callResult env MakePiscina)
                      \<longrightarrow> piscina (state_of b s)
                          = Some (if hub s = None then Suc (nextRef s) else nextRef s))))"
proof -
  let ?hub = "count_list (events_of (startPluginsServer caps env) initial) (Called CreateHub)"
  let ?pool = "count_list (events_of (startPluginsServer caps env) initial) (Called MakePiscina)"
  have p1: "?hub \<le> 1"
    by (rule count_startPluginsServer [OF frugal_run_steps [OF blocks_frugal_hub]])
  have p2: "?pool \<le> 1"
    by (rule count_startPluginsServer [OF frugal_run_steps [OF blocks_frugal_piscina]])
  have p3: "\<forall>b \<in> set (blocks caps env). \<forall>s h r.
         hub s = Some h \<and> closeHub s = Some r
         \<longrightarrow> hub (state_of b s) = Some h \<and> closeHub (state_of b s) = Some r
             \<and> Called CreateHub \<notin> set (events_of b s)"
    using blocks_reuse_hub by blast
  have p4: "\<forall>b \<in> set (blocks caps env). \<forall>s p.
         piscina s = Some p
         \<longrightarrow> piscina (state_of b s) = Some p \<and> Called MakePiscina \<notin> set (events_of b s)"
    using blocks_reuse_pool by blast
  have n: "needs_hub caps \<longleftrightarrow> (processPluginJobs caps \<or> pluginScheduledTasks caps \<or> ingestion caps
               \<or> ingestionOverflow caps \<or> processAsyncHandlers caps
               \<or> processAsyncOnEventHandlers caps \<or> processAsyncWebhooksHandlers caps)"
    by (simp add: needs_hub_def)
  have h1: "?hub = 1" if "needs_hub caps"
    using count_list_pos [OF needed_is_built(1) [OF that, of env]] p1 by simp
  have h0: "?hub = 0" "?pool = 0" if "\<not> needs_hub caps"
    using not_needed_is_not_built [OF that, of env] by (simp_all add: count_list_0)
  have q1: "?pool = 1"
    if "needs_hub caps" "resolved (callResult env CreateHub)"
       "(processPluginJobs caps \<or> pluginScheduledTasks caps
                \<longrightarrow> resolved (callResult env NewGraphileWorker)
                    \<and> resolved (callResult env ConnectProducer))"
    using count_list_pos [OF needed_is_built(2) [OF that]] p2 by simp
  have p5: "let needed = (processPluginJobs caps \<or> pluginScheduledTasks caps \<or> ingestion caps
               \<or> ingestionOverflow caps \<or> processAsyncHandlers caps
               \<or> processAsyncOnEventHandlers caps \<or> processAsyncWebhooksHandlers caps)
       in ?hub = (if needed then 1 else 0)
          \<and> (\<not> needed \<longrightarrow> ?pool = 0)
          \<and> (needed \<and> resolved (callResult env CreateHub)
              \<and> (processPluginJobs caps \<or> pluginScheduledTasks caps
                \<longrightarrow> resolved (callResult env NewGraphileWorker)
                    \<and> resolved (callResult env ConnectProducer))
              \<longrightarrow> ?pool = 1)"
    unfolding Let_def n [symmetric] using h1 h0 q1 by simp
  have p6: "\<forall>b \<in> set ((if processPluginJobs caps \<or> pluginScheduledTasks caps then [jobsBlock caps env] else [])
            @ (if ingestion caps then [ingestionBlock caps env] else [])
            @ (if ingestionOverflow caps then [ingestionOverflowBlock caps env] else [])
            @ (if processAsyncHandlers caps then [asyncHandlersBlock caps env] else [])
            @ (if processAsyncOnEventHandlers caps \<and> \<not> processAsyncHandlers caps
               then [asyncOnEventHandlersBlock caps env] else [])
            @ (if processAsyncWebhooksHandlers caps \<and> \<not> processAsyncHandlers caps
               then [asyncWebhooksHandlersBlock caps env] else [])).
        \<forall>s. (hub s = None
              \<longrightarrow> Called CreateHub \<in> set (events_of b s)
                  \<and> (resolved (callResult env CreateHub)
                      \<longrightarrow> hub (state_of b s) = Some ((newHub env)\<lparr>ref := nextRef s\<rparr>)
                          \<and> closeHub (state_of b s) = Some (nextRef s)))
           \<and> (piscina s = None \<and> (hub s \<noteq> None \<or> resolved (callResult env CreateHub))
              \<and> (processPluginJobs caps \<or> pluginScheduledTasks caps
                \<longrightarrow> resolved (callResult env NewGraphileWorker)
                    \<and> resolved (callResult env ConnectProducer))
              \<longrightarrow> Called MakePiscina \<in> set (events_of b s)
                  \<and> (resolved (callResult env MakePiscina)
                      \<longrightarrow> piscina (state_of b s)
                          = Some (if hub s = None then Suc (nextRef s) else nextRef s)))"
    unfolding builders_inline [symmetric]
    using builders_build [of _ caps env] by blast
  from p1 p2 p3 p4 p5 p6 show ?thesis by blast
qed

text \<open>
  Instances: with the job, ingestion and overflow capabilities, three blocks need the Hub
  and the pool and each is built exactly once; the overflow block, run in a state that
  holds them, reuses them. With the webhooks capability alone its block builds both, and
  with no capability neither is built.
\<close>

lemma three_blocks_events:
  "events_of (startPluginsServer three_blocks quiet_env) initial =
     [Called CreateHub, Called NewGraphileWorker, Called ConnectProducer, Called MakePiscina,
      StatusInfo ''Starting graphile worker...'', Called StartGraphileWorker,
      StatusInfo ''Graphile worker is ready!'', Called StartJobsConsumer,
      Called StartAnalyticsEventsIngestionConsumer,
      Called StartAnalyticsEventsIngestionOverflowConsumer,
      Called NewPubSub, Called PubSubStart, Called ScheduleReloadAllActions,
      Called StartPreflightSchedules, Called CaptureEventLoopMetrics,
      StatusInfo ''All systems go'']"
  by (simp add: events_of_def three_blocks_def step_defs block_defs no_capabilities_def
        quiet_env_def initial_def)

theorem hub_and_pool_constructed_once_witness:
  "count_list (events_of (startPluginsServer three_blocks quiet_env) initial) (Called CreateHub) = 1
   \<and> count_list (events_of (startPluginsServer three_blocks quiet_env) initial)
        (Called MakePiscina) = 1
   \<and> hub (state_of (ingestionOverflowBlock three_blocks quiet_env) running_state)
        = Some (newHub quiet_env)
   \<and> closeHub (state_of (ingestionOverflowBlock three_blocks quiet_env) running_state) = Some 0
   \<and> Called CreateHub
        \<notin> set (events_of (ingestionOverflowBlock three_blocks quiet_env) running_state)
   \<and> piscina (state_of (ingestionOverflowBlock three_blocks quiet_env) running_state) = Some 1
   \<and> Called MakePiscina
        \<notin> set (events_of (ingestionOverflowBlock three_blocks quiet_env) running_state)
   \<and> count_list (events_of (startPluginsServer webhooks_only quiet_env) initial)
        (Called CreateHub) = 1
   \<and> count_list (events_of (startPluginsServer webhooks_only quiet_env) initial)
        (Called MakePiscina) = 1
   \<and> count_list (events_of (startPluginsServer no_capabilities quiet_env) initial)
        (Called CreateHub) = 0
   \<and> count_list (events_of (startPluginsServer no_capabilities quiet_env) initial)
        (Called MakePiscina) = 0
   \<and> Called CreateHub
        \<in> set (events_of (asyncWebhooksHandlersBlock webhooks_only quiet_env) initial)
   \<and> hub (state_of (asyncWebhooksHandlersBlock webhooks_only quiet_env) initial)
        = Some ((newHub quiet_env)\<lparr>ref := 0\<rparr>)
   \<and> closeHub (state_of (asyncWebhooksHandlersBlock webhooks_only quiet_env) initial) = Some 0
   \<and> Called MakePiscina
        \<in> set (events_of (asyncWebhooksHandlersBlock webhooks_only quiet_env) initial)
   \<and> piscina (state_of (asyncWebhooksHandlersBlock webhooks_only quiet_env) initial) = Some 1"
proof -
  have b: "ingestionOverflowBlock three_blocks quiet_env \<in> set (blocks three_blocks quiet_env)"
    by (simp add: blocks_def)
  have h: "hub running_state = Some (newHub quiet_env) \<and> closeHub running_state = Some 0"
    and p: "piscina running_state = Some 1"
    by (simp_all add: running_state_eq initial_def)
  have c: "count_list (events_of (startPluginsServer three_blocks quiet_env) initial)
             (Called CreateHub) = 1"
    "count_list (events_of (startPluginsServer three_blocks quiet_env) initial)
             (Called MakePiscina) = 1"
    by (simp_all add: three_blocks_events)
  have old: "hub (state_of (ingestionOverflowBlock three_blocks quiet_env) running_state)
        = Some (newHub quiet_env)
   \<and> closeHub (state_of (ingestionOverflowBlock three_blocks quiet_env) running_state) = Some 0
   \<and> Called CreateHub
        \<notin> set (events_of (ingestionOverflowBlock three_blocks quiet_env) running_state)
   \<and> piscina (state_of (ingestionOverflowBlock three_blocks quiet_env) running_state) = Some 1
   \<and> Called MakePiscina
        \<notin> set (events_of (ingestionOverflowBlock three_blocks quiet_env) running_state)"
    using hub_and_pool_constructed_once [of three_blocks quiet_env] b h p by blast
  have w: "count_list (events_of (startPluginsServer webhooks_only quiet_env) initial)
        (Called CreateHub) = 1
   \<and> count_list (events_of (startPluginsServer webhooks_only quiet_env) initial)
        (Called MakePiscina) = 1"
    using hub_and_pool_constructed_once [of webhooks_only quiet_env]
    by (simp add: Let_def webhooks_only_def no_capabilities_def quiet_env_def)
  have z: "count_list (events_of (startPluginsServer no_capabilities quiet_env) initial)
        (Called CreateHub) = 0
   \<and> count_list (events_of (startPluginsServer no_capabilities quiet_env) initial)
        (Called MakePiscina) = 0"
    using hub_and_pool_constructed_once [of no_capabilities quiet_env]
    by (simp add: Let_def no_capabilities_def)
  have i: "hub initial = None" "piscina initial = None" "nextRef initial = 0"
    by (simp_all add: initial_def)
  have q: "resolved (callResult quiet_env CreateHub)" "resolved (callResult quiet_env MakePiscina)"
    by (simp_all add: quiet_env_def)
  have m: "asyncWebhooksHandlersBlock webhooks_only quiet_env
        \<in> set ((if processPluginJobs webhooks_only \<or> pluginScheduledTasks webhooks_only
                 then [jobsBlock webhooks_only quiet_env] else [])
            @ (if ingestion webhooks_only then [ingestionBlock webhooks_only quiet_env] else [])
            @ (if ingestionOverflow webhooks_only
               then [ingestionOverflowBlock webhooks_only quiet_env] else [])
            @ (if processAsyncHandlers webhooks_only
               then [asyncHandlersBlock webhooks_only quiet_env] else [])
            @ (if processAsyncOnEventHandlers webhooks_only \<and> \<not> processAsyncHandlers webhooks_only
               then [asyncOnEventHandlersBlock webhooks_only quiet_env] else [])
            @ (if processAsyncWebhooksHandlers webhooks_only \<and> \<not> processAsyncHandlers webhooks_only
               then [asyncWebhooksHandlersBlock webhooks_only quiet_env] else []))"
    by (simp add: webhooks_only_def no_capabilities_def)
  have j: "\<not> (processPluginJobs webhooks_only \<or> pluginScheduledTasks webhooks_only)"
    by (simp add: webhooks_only_def no_capabilities_def)
  have new: "Called CreateHub
        \<in> set (events_of (asyncWebhooksHandlersBlock webhooks_only quiet_env) initial)
   \<and> hub (state_of (asyncWebhooksHandlersBlock webhooks_only quiet_env) initial)
        = Some ((newHub quiet_env)\<lparr>ref := 0\<rparr>)
   \<and> closeHub (state_of (asyncWebhooksHandlersBlock webhooks_only quiet_env) initial) = Some 0
   \<and> Called MakePiscina
        \<in> set (events_of (asyncWebhooksHandlersBlock webhooks_only quiet_env) initial)
   \<and> piscina (state_of (asyncWebhooksHandlersBlock webhooks_only quiet_env) initial) = Some 1"
    using hub_and_pool_constructed_once [of webhooks_only quiet_env, THEN conjunct2,
        THEN conjunct2, THEN conjunct2, THEN conjunct2, THEN conjunct2, THEN bspec, OF m,
        THEN spec, of initial] i q j
    by simp
  from c old w z new show ?thesis by blast
qed

end
